theory Spec2Isabelle
  imports Main
begin

section \<open>Python values, strings and exceptions\<close>

text \<open>
  A Python \<open>str\<close> is a sequence of Unicode code points, so it is modelled as a list of
  natural numbers; \<open>len\<close> is \<open>length\<close> and \<open>==\<close> is equality of lists. Literals of the
  source are written with \<open>lit\<close> when they are ASCII, and by code point otherwise.
  A \<open>bytes\<close> object is a list of numbers below 256.
\<close>

type_synonym ustr = "nat list"
type_synonym bytes = "nat list"

definition lit :: "string \<Rightarrow> ustr" where
  "lit s = map of_char s"

text \<open>
  The values an argument mapping can carry (JSON strings, integers, booleans and null;
  floats, lists and nested objects are left out).
\<close>

datatype pyval = VStr ustr | VInt int | VBool bool | VNone

text \<open>
  The exceptions the handlers can meet. Unicode errors carry the object and the position
  at which the codec stopped, as the Python exception objects do.
\<close>

datatype exn =
    AttributeError
  | TypeError
  | ZeroDivisionError
  | IndexError
  | ValueError_non_ascii
  | Binascii_Incorrect_padding
  | Binascii_Invalid_length nat
  | UnicodeEncodeError ustr nat
  | UnicodeDecodeError bytes nat

text \<open>\<open>arguments.get(key, default)\<close> on a dictionary.\<close>

definition dict_get :: "(ustr \<rightharpoonup> pyval) \<Rightarrow> ustr \<Rightarrow> pyval \<Rightarrow> pyval" where
  "dict_get arguments key dflt = (case arguments key of None \<Rightarrow> dflt | Some v \<Rightarrow> v)"

text \<open>Truthiness of a value, as \<open>if v\<close> and \<open>not v\<close> test it.\<close>

fun truthy :: "pyval \<Rightarrow> bool" where
  "truthy (VStr s) = (s \<noteq> [])"
| "truthy (VInt n) = (n \<noteq> 0)"
| "truthy (VBool b) = b"
| "truthy VNone = False"

section \<open>The runtime the handlers rely on\<close>

text \<open>
  What the module reads from its environment and from the Python runtime without defining
  it: the two configuration strings, the Unicode character database beyond ASCII, the
  random source, the rendering of floats and of exception texts, and the three extraction
  patterns of \<open>extract_data\<close>, whose matches are taken as given.
\<close>

record pyenv =
  AUTH_TOKEN :: ustr
  MY_NUMBER :: ustr
  udb_upper :: "nat \<Rightarrow> ustr"
  udb_lower :: "nat \<Rightarrow> ustr"
  udb_title :: "nat \<Rightarrow> ustr"
  udb_cased :: "nat \<Rightarrow> bool"
  udb_case_ignorable :: "nat \<Rightarrow> bool"
  randbelow :: "nat \<Rightarrow> nat \<Rightarrow> nat"
  format_f1 :: "int \<Rightarrow> int \<Rightarrow> ustr"
  format_pct_f1 :: "int \<Rightarrow> int \<Rightarrow> ustr"
  exc_text :: "exn \<Rightarrow> ustr"
  findall_email :: "ustr \<Rightarrow> ustr list"
  findall_url :: "ustr \<Rightarrow> ustr list"
  findall_phone_groups :: "ustr \<Rightarrow> (ustr \<times> ustr \<times> ustr) list"
  findall_phone_intl :: "ustr \<Rightarrow> ustr list"

section \<open>String methods\<close>

text \<open>Character classes: \<open>str.isspace\<close> (also \<open>\s\<close> of \<open>re\<close> on a \<open>str\<close>), and the ASCII ranges.\<close>

definition py_isspace :: "nat \<Rightarrow> bool" where
  "py_isspace c \<longleftrightarrow>
     (9 \<le> c \<and> c \<le> 13) \<or> (28 \<le> c \<and> c \<le> 32) \<or> c = 133 \<or> c = 160 \<or> c = 5760 \<or>
     (8192 \<le> c \<and> c \<le> 8202) \<or> c = 8232 \<or> c = 8233 \<or> c = 8239 \<or> c = 8287 \<or> c = 12288"

definition is_ascii_upper :: "nat \<Rightarrow> bool" where
  "is_ascii_upper c \<longleftrightarrow> 65 \<le> c \<and> c \<le> 90"

definition is_ascii_lower :: "nat \<Rightarrow> bool" where
  "is_ascii_lower c \<longleftrightarrow> 97 \<le> c \<and> c \<le> 122"

definition is_ascii_digit :: "nat \<Rightarrow> bool" where
  "is_ascii_digit c \<longleftrightarrow> 48 \<le> c \<and> c \<le> 57"

definition is_ascii_alnum :: "nat \<Rightarrow> bool" where
  "is_ascii_alnum c \<longleftrightarrow> is_ascii_lower c \<or> is_ascii_upper c \<or> is_ascii_digit c"

definition ascii_lower :: "nat \<Rightarrow> nat" where
  "ascii_lower c = (if is_ascii_upper c then c + 32 else c)"

definition ascii_upper :: "nat \<Rightarrow> nat" where
  "ascii_upper c = (if is_ascii_lower c then c - 32 else c)"

text \<open>
  Full case mappings of one code point. Below 128 they are the ASCII ones; beyond, they are
  read from the character database of the runtime.
\<close>

definition to_upper_full :: "pyenv \<Rightarrow> nat \<Rightarrow> ustr" where
  "to_upper_full env c = (if c < 128 then [ascii_upper c] else udb_upper env c)"

definition to_lower_full :: "pyenv \<Rightarrow> nat \<Rightarrow> ustr" where
  "to_lower_full env c = (if c < 128 then [ascii_lower c] else udb_lower env c)"

definition to_title_full :: "pyenv \<Rightarrow> nat \<Rightarrow> ustr" where
  "to_title_full env c = (if c < 128 then [ascii_upper c] else udb_title env c)"

definition is_cased :: "pyenv \<Rightarrow> nat \<Rightarrow> bool" where
  "is_cased env c = (if c < 128 then is_ascii_lower c \<or> is_ascii_upper c else udb_cased env c)"

text \<open>\<open>str.upper\<close>: every code point is replaced by its full upper-case mapping.\<close>

definition str_upper :: "pyenv \<Rightarrow> ustr \<Rightarrow> ustr" where
  "str_upper env s = concat (map (to_upper_full env) s)"

text \<open>
  \<open>str.lower\<close>: as \<open>str.upper\<close>, but a capital sigma (U+03A3) becomes the final sigma
  (U+03C2) when a cased letter precedes it and none follows, case-ignorable characters
  skipped on both sides, and the small sigma (U+03C3) otherwise.
\<close>

definition handle_capital_sigma :: "pyenv \<Rightarrow> ustr \<Rightarrow> ustr \<Rightarrow> nat" where
  "handle_capital_sigma env seen rest =
     (let final_sigma =
        (case dropWhile (udb_case_ignorable env) (rev seen) of
           [] \<Rightarrow> False
         | c # _ \<Rightarrow> is_cased env c) \<and>
        (case dropWhile (udb_case_ignorable env) rest of
           [] \<Rightarrow> True
         | c # _ \<Rightarrow> \<not> is_cased env c)
      in if final_sigma then 962 else 963)"

definition lower_ucs4 :: "pyenv \<Rightarrow> ustr \<Rightarrow> nat \<Rightarrow> ustr \<Rightarrow> ustr" where
  "lower_ucs4 env seen c rest =
     (if c = 931 then [handle_capital_sigma env seen rest] else to_lower_full env c)"

fun do_lower :: "pyenv \<Rightarrow> ustr \<Rightarrow> ustr \<Rightarrow> ustr" where
  "do_lower env seen [] = []"
| "do_lower env seen (c # cs) = lower_ucs4 env seen c cs @ do_lower env (seen @ [c]) cs"

definition str_lower :: "pyenv \<Rightarrow> ustr \<Rightarrow> ustr" where
  "str_lower env s = do_lower env [] s"

text \<open>
  \<open>str.title\<close>: a code point following an uncased one is title-cased, one following a cased one is
  lower-cased. \<open>str.capitalize\<close>: the first code point title-cased, the rest lower-cased.
\<close>

fun do_title :: "pyenv \<Rightarrow> bool \<Rightarrow> ustr \<Rightarrow> ustr \<Rightarrow> ustr" where
  "do_title env previous_is_cased seen [] = []"
| "do_title env previous_is_cased seen (c # cs) =
     (if previous_is_cased then lower_ucs4 env seen c cs else to_title_full env c)
     @ do_title env (is_cased env c) (seen @ [c]) cs"

definition str_title :: "pyenv \<Rightarrow> ustr \<Rightarrow> ustr" where
  "str_title env s = do_title env False [] s"

definition str_capitalize :: "pyenv \<Rightarrow> ustr \<Rightarrow> ustr" where
  "str_capitalize env s =
     (case s of [] \<Rightarrow> [] | c # cs \<Rightarrow> to_title_full env c @ do_lower env [c] cs)"

text \<open>\<open>str.strip()\<close> removes leading and trailing whitespace, \<open>str.strip(chars)\<close> the given characters.\<close>

definition strip_with :: "(nat \<Rightarrow> bool) \<Rightarrow> ustr \<Rightarrow> ustr" where
  "strip_with P s = rev (dropWhile P (rev (dropWhile P s)))"

definition str_strip :: "ustr \<Rightarrow> ustr" where
  "str_strip s = strip_with py_isspace s"

definition str_strip_chars :: "ustr \<Rightarrow> ustr \<Rightarrow> ustr" where
  "str_strip_chars chars s = strip_with (\<lambda>c. c \<in> set chars) s"

text \<open>\<open>str.split()\<close> without a separator: the maximal runs of non-whitespace.\<close>

fun split_ws :: "ustr \<Rightarrow> ustr \<Rightarrow> ustr list" where
  "split_ws word [] = (if word = [] then [] else [word])"
| "split_ws word (c # cs) =
     (if py_isspace c then (if word = [] then split_ws [] cs else word # split_ws [] cs)
      else split_ws (word @ [c]) cs)"

definition str_split_ws :: "ustr \<Rightarrow> ustr list" where
  "str_split_ws s = split_ws [] s"

text \<open>
  \<open>str.split(sep)\<close> for a non-empty separator: the text is cut at the leftmost occurrences
  of \<open>sep\<close>, which do not overlap. (An empty separator raises in Python; the handlers pass
  one or two line feeds.)
\<close>

fun split_sep :: "ustr \<Rightarrow> ustr \<Rightarrow> ustr \<Rightarrow> ustr list" where
  "split_sep sep piece [] = [piece]"
| "split_sep sep piece (c # cs) =
     (if take (length sep) (c # cs) = sep
      then piece # split_sep sep [] (drop (length sep - 1) cs)
      else split_sep sep (piece @ [c]) cs)"

definition str_split :: "ustr \<Rightarrow> ustr \<Rightarrow> ustr list" where
  "str_split sep s = split_sep sep [] s"

text \<open>\<open>str.replace(old, new)\<close> where \<open>old\<close> is one character, as in every call of the module.\<close>

definition str_replace :: "nat \<Rightarrow> ustr \<Rightarrow> ustr \<Rightarrow> ustr" where
  "str_replace old new s = concat (map (\<lambda>c. if c = old then new else [c]) s)"

definition str_join :: "ustr \<Rightarrow> ustr list \<Rightarrow> ustr" where
  "str_join sep xs = (case xs of [] \<Rightarrow> [] | x # rest \<Rightarrow> x @ concat (map (\<lambda>y. sep @ y) rest))"

section \<open>The regular expressions of the text handlers\<close>

text \<open>
  \<open>re.sub\<close> with a pattern \<open>[class]{k,}\<close> (\<open>k \<ge> 1\<close>): scanning from the left, a greedy run of
  at least \<open>k\<close> characters of the class is replaced by \<open>repl\<close>; any other character is copied.
  \<open>' +'\<close>, \<open>'\s+'\<close>, \<open>'_+'\<close> and \<open>'-+'\<close> have \<open>k = 1\<close>, \<open>'\n{3,}'\<close> has \<open>k = 3\<close>.
\<close>

function re_sub_run :: "(nat \<Rightarrow> bool) \<Rightarrow> nat \<Rightarrow> ustr \<Rightarrow> ustr \<Rightarrow> ustr" where
  "re_sub_run P k repl [] = []"
| "re_sub_run P k repl (c # cs) =
     (if P c \<and> k \<le> Suc (length (takeWhile P cs))
      then repl @ re_sub_run P k repl (dropWhile P cs)
      else c # re_sub_run P k repl cs)"
  by pat_completeness auto
termination
  by (relation "measure (\<lambda>(P, k, repl, s). length s)")
     (auto simp: less_Suc_eq_le length_dropWhile_le)

text \<open>\<open>re.findall\<close> with a pattern \<open>[class]+\<close>: the maximal runs of the class, left to right.\<close>

function re_findall_run :: "(nat \<Rightarrow> bool) \<Rightarrow> ustr \<Rightarrow> ustr list" where
  "re_findall_run P [] = []"
| "re_findall_run P (c # cs) =
     (if P c then (c # takeWhile P cs) # re_findall_run P (dropWhile P cs)
      else re_findall_run P cs)"
  by pat_completeness auto
termination
  by (relation "measure (\<lambda>(P, s). length s)")
     (auto simp: less_Suc_eq_le length_dropWhile_le)

text \<open>\<open>re.sub\<close> with a one-character class pattern replaces every character of the class.\<close>

definition re_sub_char :: "(nat \<Rightarrow> bool) \<Rightarrow> ustr \<Rightarrow> ustr \<Rightarrow> ustr" where
  "re_sub_char P repl s = concat (map (\<lambda>c. if P c then repl else [c]) s)"

section \<open>Formatting numbers\<close>

text \<open>Decimal digits of a natural number, \<open>str(n)\<close> and the format \<open>{n:,}\<close> of an integer.\<close>

function str_nat :: "nat \<Rightarrow> ustr" where
  "str_nat n = (if n < 10 then [48 + n] else str_nat (n div 10) @ [48 + n mod 10])"
  by pat_completeness auto
termination
  by (relation "measure id") auto

definition str_int :: "int \<Rightarrow> ustr" where
  "str_int i = (if i < 0 then 45 # str_nat (nat (- i)) else str_nat (nat i))"

fun group3 :: "ustr \<Rightarrow> ustr" where
  "group3 (a # b # c # d # rest) = a # b # c # 44 # group3 (d # rest)"
| "group3 ds = ds"

definition format_comma :: "int \<Rightarrow> ustr" where
  "format_comma i =
     (if i < 0 then 45 # rev (group3 (rev (str_nat (nat (- i)))))
      else rev (group3 (rev (str_nat (nat i)))))"

text \<open>
  True division, as far as it is modelled: a zero divisor raises; the float quotient is
  only ever rendered, by the runtime's \<open>format_f1\<close> (\<open>{a/b:.1f}\<close>) and \<open>format_pct_f1\<close>
  (\<open>{(a/b*100):.1f}\<close>).
\<close>

definition py_truediv_f1 :: "pyenv \<Rightarrow> int \<Rightarrow> int \<Rightarrow> exn + ustr" where
  "py_truediv_f1 env a b = (if b = 0 then Inl ZeroDivisionError else Inr (format_f1 env a b))"

definition py_truediv_pct_f1 :: "pyenv \<Rightarrow> int \<Rightarrow> int \<Rightarrow> exn + ustr" where
  "py_truediv_pct_f1 env a b =
     (if b = 0 then Inl ZeroDivisionError else Inr (format_pct_f1 env a b))"

text \<open>The preview \<open>{text[:100]}{'...' if len(text) > 100 else ''}\<close> of the reports.\<close>

definition preview :: "ustr \<Rightarrow> ustr" where
  "preview text = take 100 text @ (if length text > 100 then lit ''...'' else [])"

section \<open>Pieces of the reports\<close>

text \<open>The non-ASCII characters of the report texts, by code point.\<close>

definition cross_mark :: ustr where "cross_mark = [10060]"
definition check_mark :: ustr where "check_mark = [9989]"
definition bullet :: ustr where "bullet = [8226]"
definition bar_chart :: ustr where "bar_chart = [128202]"
definition memo :: ustr where "memo = [128221]"
definition chart_up :: ustr where "chart_up = [128200]"
definition clipboard :: ustr where "clipboard = [128203]"
definition closed_lock :: ustr where "closed_lock = [128272]"
definition shield :: ustr where "shield = [128737, 65039]"
definition warning_sign :: ustr where "warning_sign = [9888, 65039]"
definition magnifier :: ustr where "magnifier = [128269]"

text \<open>The error marker: every error report of the text tools starts with the cross mark.\<close>

definition is_error_report :: "ustr \<Rightarrow> bool" where
  "is_error_report s \<longleftrightarrow> take 1 s = cross_mark"

definition text_is_empty :: ustr where
  "text_is_empty = cross_mark @ lit '' Text is empty.''"

text \<open>
  \<open>try: ... except Exception as e: return [TextContent(text=f"{prefix}{str(e)}")]\<close>:
  an exception of the block becomes a report; \<open>str(e)\<close> is the runtime's text of it.
\<close>

definition try_except :: "pyenv \<Rightarrow> exn + ustr \<Rightarrow> ustr \<Rightarrow> exn + ustr" where
  "try_except env body prefix =
     (case body of Inl e \<Rightarrow> Inr (prefix @ exc_text env e) | Inr r \<Rightarrow> Inr r)"

section \<open>count\_text\<close>

record text_stats =
  chars_with_spaces :: nat
  chars_without_spaces :: nat
  words :: nat
  sentences :: nat
  paragraphs :: nat
  lines :: nat
  reading_time :: nat

definition is_sentence_end :: "nat \<Rightarrow> bool" where
  "is_sentence_end c \<longleftrightarrow> c = 46 \<or> c = 33 \<or> c = 63"

definition non_blank :: "ustr list \<Rightarrow> ustr list" where
  "non_blank ps = filter (\<lambda>p. str_strip p \<noteq> []) ps"

definition count_paragraphs :: "ustr \<Rightarrow> nat" where
  "count_paragraphs text =
     (let paragraphs = length (non_blank (str_split [10, 10] text))
      in if paragraphs = 0 then length (non_blank (str_split [10] text)) else paragraphs)"

definition count_sentences :: "ustr \<Rightarrow> nat" where
  "count_sentences text =
     (let sentences = length (re_findall_run is_sentence_end text)
      in if sentences = 0 then 1 else sentences)"

definition count_stats :: "ustr \<Rightarrow> text_stats" where
  "count_stats text =
     \<lparr> chars_with_spaces = length text,
       chars_without_spaces = length (str_replace 9 [] (str_replace 10 [] (str_replace 32 [] text))),
       words = length (str_split_ws text),
       sentences = count_sentences text,
       paragraphs = count_paragraphs text,
       lines = length (str_split [10] text),
       reading_time = max 1 (length (str_split_ws text) div 200) \<rparr>"

definition render_stats :: "pyenv \<Rightarrow> text_stats \<Rightarrow> exn + ustr" where
  "render_stats env st =
     (case py_truediv_f1 env (int (words st)) (max (int (sentences st)) 1) of
        Inl e \<Rightarrow> Inl e
      | Inr words_per_sentence \<Rightarrow>
     (case py_truediv_f1 env (int (chars_without_spaces st)) (max (int (words st)) 1) of
        Inl e \<Rightarrow> Inl e
      | Inr chars_per_word \<Rightarrow>
        Inr (bar_chart @ lit '' **TEXT STATISTICS**'' @ [10, 10]
           @ memo @ lit '' **Basic Counts:**'' @ [10]
           @ bullet @ lit '' Characters (with spaces): '' @ format_comma (int (chars_with_spaces st)) @ [10]
           @ bullet @ lit '' Characters (no spaces): '' @ format_comma (int (chars_without_spaces st)) @ [10]
           @ bullet @ lit '' Words: '' @ format_comma (int (words st)) @ [10]
           @ bullet @ lit '' Sentences: '' @ format_comma (int (sentences st)) @ [10]
           @ bullet @ lit '' Paragraphs: '' @ format_comma (int (paragraphs st)) @ [10]
           @ bullet @ lit '' Lines: '' @ format_comma (int (lines st)) @ [10, 10]
           @ chart_up @ lit '' **Analysis:**'' @ [10]
           @ bullet @ lit '' Average words per sentence: '' @ words_per_sentence @ [10]
           @ bullet @ lit '' Average characters per word: '' @ chars_per_word @ [10]
           @ bullet @ lit '' Estimated reading time: '' @ str_nat (reading_time st)
           @ lit '' minute(s)'' @ [10, 10]
           @ check_mark @ lit '' **Analysis complete!**'')))"

text \<open>The handler has no \<open>try\<close>: \<open>text.strip()\<close> on a value that is not a string propagates.\<close>

definition count_text :: "pyenv \<Rightarrow> (ustr \<rightharpoonup> pyval) \<Rightarrow> exn + ustr" where
  "count_text env arguments =
     (case dict_get arguments (lit ''text'') (VStr []) of
        VStr text \<Rightarrow>
          if str_strip text = [] then Inr text_is_empty
          else render_stats env (count_stats text)
      | _ \<Rightarrow> Inl AttributeError)"

section \<open>convert\_case\<close>

text \<open>
  The value of \<open>result\<close> for a case type, \<open>None\<close> when the case type is none of the nine.
  \<open>[^a-zA-Z0-9\s]\<close> and \<open>[^a-zA-Z0-9]\<close> are one-character classes.
\<close>

definition case_words :: "ustr \<Rightarrow> ustr list" where
  "case_words text =
     str_split_ws (re_sub_char (\<lambda>c. \<not> (is_ascii_alnum c \<or> py_isspace c)) [] text)"

definition separator_case :: "pyenv \<Rightarrow> nat \<Rightarrow> ustr \<Rightarrow> ustr" where
  "separator_case env sep text =
     (let result = str_lower env
            (re_sub_char (\<lambda>c. \<not> is_ascii_alnum c) [sep] (str_replace 32 [sep] (str_strip text)))
      in str_strip_chars [sep] (re_sub_run (\<lambda>c. c = sep) 1 [sep] result))"

definition alternating_case :: "pyenv \<Rightarrow> ustr \<Rightarrow> ustr" where
  "alternating_case env text =
     concat (map (\<lambda>(i, c). if i mod 2 = 0 then str_upper env [c] else str_lower env [c])
                 (enumerate 0 text))"

definition convert_result :: "pyenv \<Rightarrow> ustr \<Rightarrow> ustr \<Rightarrow> ustr option" where
  "convert_result env case_type text =
     (if case_type = lit ''upper'' then Some (str_upper env text)
      else if case_type = lit ''lower'' then Some (str_lower env text)
      else if case_type = lit ''title'' then Some (str_title env text)
      else if case_type = lit ''sentence'' then Some (str_capitalize env text)
      else if case_type = lit ''camel'' then
        (case case_words text of
           [] \<Rightarrow> Some text
         | w # ws \<Rightarrow> Some (str_lower env w @ concat (map (str_capitalize env) ws)))
      else if case_type = lit ''pascal'' then
        Some (concat (map (str_capitalize env) (case_words text)))
      else if case_type = lit ''snake'' then Some (separator_case env 95 text)
      else if case_type = lit ''kebab'' then Some (separator_case env 45 text)
      else if case_type = lit ''alternating'' then Some (alternating_case env text)
      else None)"

definition invalid_case_type :: ustr where
  "invalid_case_type =
     cross_mark @ lit '' Invalid case type. Available options:'' @ [10]
     @ bullet @ lit '' upper, lower, title, sentence'' @ [10]
     @ bullet @ lit '' camel, pascal, snake, kebab'' @ [10]
     @ bullet @ lit '' alternating''"

definition convert_case_output :: "pyenv \<Rightarrow> ustr \<Rightarrow> ustr \<Rightarrow> ustr \<Rightarrow> ustr" where
  "convert_case_output env case_type text result =
     check_mark @ lit '' **'' @ str_upper env case_type @ lit '' CASE CONVERSION**'' @ [10, 10]
     @ lit ''**Original:** '' @ preview text @ [10]
     @ lit ''**Result:** '' @ result @ [10, 10]
     @ clipboard @ lit '' **Copy the result above!**''"

text \<open>
  \<open>.lower()\<close> on the case type and \<open>text.strip()\<close> stand ahead of the \<open>try\<close>; inside it,
  no operation raises on strings.
\<close>

definition convert_case :: "pyenv \<Rightarrow> (ustr \<rightharpoonup> pyval) \<Rightarrow> exn + ustr" where
  "convert_case env arguments =
     (case dict_get arguments (lit ''case_type'') (VStr []) of
        VStr ct \<Rightarrow>
          (case dict_get arguments (lit ''text'') (VStr []) of
             VStr text \<Rightarrow>
               if str_strip text = [] then Inr text_is_empty
               else try_except env
                 (case convert_result env (str_lower env ct) text of
                    None \<Rightarrow> Inr invalid_case_type
                  | Some result \<Rightarrow> Inr (convert_case_output env (str_lower env ct) text result))
                 (cross_mark @ lit '' Error converting case: '')
           | _ \<Rightarrow> Inl AttributeError)
      | _ \<Rightarrow> Inl AttributeError)"

section \<open>clean\_text\<close>

definition clean_lines :: "ustr \<Rightarrow> ustr" where
  "clean_lines s = str_join [10] (map str_strip (str_split [10] s))"

definition cleaned_text :: "pyval \<Rightarrow> ustr \<Rightarrow> ustr option" where
  "cleaned_text mode text =
     (if mode = VStr (lit ''basic'') then
        Some (clean_lines (re_sub_run (\<lambda>c. c = 32) 1 [32] text))
      else if mode = VStr (lit ''aggressive'') then
        Some (str_strip (re_sub_run py_isspace 1 [32] text))
      else if mode = VStr (lit ''normalize'') then
        Some (clean_lines (re_sub_run (\<lambda>c. c = 32) 1 [32]
                (re_sub_run (\<lambda>c. c = 10) 3 [10, 10] (str_strip text))))
      else None)"

definition py_upper :: "pyenv \<Rightarrow> pyval \<Rightarrow> exn + ustr" where
  "py_upper env v = (case v of VStr s \<Rightarrow> Inr (str_upper env s) | _ \<Rightarrow> Inl AttributeError)"

definition clean_text_body :: "pyenv \<Rightarrow> pyval \<Rightarrow> ustr \<Rightarrow> exn + ustr" where
  "clean_text_body env mode text =
     (case cleaned_text mode text of
        None \<Rightarrow> Inr (cross_mark @ lit '' Invalid mode. Use: basic, aggressive, or normalize'')
      | Some cleaned \<Rightarrow>
     (case py_upper env mode of
        Inl e \<Rightarrow> Inl e
      | Inr mode_upper \<Rightarrow>
     (case py_truediv_pct_f1 env (int (length text) - int (length cleaned)) (int (length text)) of
        Inl e \<Rightarrow> Inl e
      | Inr percent \<Rightarrow>
        Inr (check_mark @ lit '' **TEXT CLEANED ('' @ mode_upper @ lit '' MODE)**'' @ [10, 10]
           @ bar_chart @ lit '' **Statistics:**'' @ [10]
           @ bullet @ lit '' Original length: '' @ format_comma (int (length text))
           @ lit '' characters'' @ [10]
           @ bullet @ lit '' Cleaned length: '' @ format_comma (int (length cleaned))
           @ lit '' characters'' @ [10]
           @ bullet @ lit '' Saved: '' @ format_comma (int (length text) - int (length cleaned))
           @ lit '' characters ('' @ percent @ lit ''%)'' @ [10, 10]
           @ lit ''**Cleaned text:**'' @ [10]
           @ cleaned @ [10, 10]
           @ clipboard @ lit '' **Copy the cleaned text above!**''))))"

definition clean_text :: "pyenv \<Rightarrow> (ustr \<rightharpoonup> pyval) \<Rightarrow> exn + ustr" where
  "clean_text env arguments =
     (case dict_get arguments (lit ''text'') (VStr []) of
        VStr text \<Rightarrow>
          if str_strip text = [] then Inr text_is_empty
          else try_except env
                 (clean_text_body env (dict_get arguments (lit ''mode'') (VStr (lit ''basic''))) text)
                 (cross_mark @ lit '' Error cleaning text: '')
      | _ \<Rightarrow> Inl AttributeError)"

section \<open>UTF-8 and Base64\<close>

text \<open>
  \<open>str.encode('utf-8')\<close>: one to four bytes per code point; a surrogate (U+D800 to U+DFFF)
  cannot be encoded and raises. A Python string holds no code point beyond U+10FFFF.
\<close>

definition utf8_encode_char :: "nat \<Rightarrow> bytes option" where
  "utf8_encode_char c =
     (if c < 128 then Some [c]
      else if c < 2048 then Some [192 + c div 64, 128 + c mod 64]
      else if c < 65536 then
        (if 55296 \<le> c \<and> c < 57344 then None
         else Some [224 + c div 4096, 128 + c div 64 mod 64, 128 + c mod 64])
      else if c < 1114112 then
        Some [240 + c div 262144, 128 + c div 4096 mod 64, 128 + c div 64 mod 64, 128 + c mod 64]
      else None)"

fun utf8_encode_from :: "ustr \<Rightarrow> nat \<Rightarrow> ustr \<Rightarrow> exn + bytes" where
  "utf8_encode_from obj i [] = Inr []"
| "utf8_encode_from obj i (c # cs) =
     (case utf8_encode_char c of
        None \<Rightarrow> Inl (UnicodeEncodeError obj i)
      | Some bs \<Rightarrow>
          (case utf8_encode_from obj (i + 1) cs of
             Inl e \<Rightarrow> Inl e
           | Inr rest \<Rightarrow> Inr (bs @ rest)))"

definition str_encode_utf8 :: "ustr \<Rightarrow> exn + bytes" where
  "str_encode_utf8 s = utf8_encode_from s 0 s"

text \<open>
  \<open>bytes.decode('utf-8')\<close>, strict: continuation bytes are 0x80 to 0xBF; the lead bytes 0xC0,
  0xC1 and 0xF5 to 0xFF are invalid; the second byte after 0xE0, 0xED, 0xF0 and 0xF4 is
  restricted so that overlong forms, surrogates and values beyond U+10FFFF are rejected.
\<close>

definition is_cont :: "nat \<Rightarrow> bool" where
  "is_cont b \<longleftrightarrow> 128 \<le> b \<and> b < 192"

definition second_ok :: "nat \<Rightarrow> nat \<Rightarrow> bool" where
  "second_ok b0 b1 \<longleftrightarrow>
     (if b0 = 224 then 160 else if b0 = 240 then 144 else 128) \<le> b1 \<and>
     b1 < (if b0 = 237 then 160 else if b0 = 244 then 144 else 192)"

fun utf8_decode_from :: "bytes \<Rightarrow> nat \<Rightarrow> bytes \<Rightarrow> exn + ustr" where
  "utf8_decode_from obj i [] = Inr []"
| "utf8_decode_from obj i (b0 # bs) =
     (if b0 < 128 then
        (case utf8_decode_from obj (i + 1) bs of
           Inl e \<Rightarrow> Inl e
         | Inr rest \<Rightarrow> Inr (b0 # rest))
      else if b0 < 194 then Inl (UnicodeDecodeError obj i)
      else if b0 < 224 then
        (case bs of
           b1 # bs1 \<Rightarrow>
             if is_cont b1 then
               (case utf8_decode_from obj (i + 2) bs1 of
                  Inl e \<Rightarrow> Inl e
                | Inr rest \<Rightarrow> Inr (((b0 - 192) * 64 + (b1 - 128)) # rest))
             else Inl (UnicodeDecodeError obj i)
         | _ \<Rightarrow> Inl (UnicodeDecodeError obj i))
      else if b0 < 240 then
        (case bs of
           b1 # b2 # bs2 \<Rightarrow>
             if second_ok b0 b1 \<and> is_cont b2 then
               (case utf8_decode_from obj (i + 3) bs2 of
                  Inl e \<Rightarrow> Inl e
                | Inr rest \<Rightarrow>
                    Inr (((b0 - 224) * 4096 + (b1 - 128) * 64 + (b2 - 128)) # rest))
             else Inl (UnicodeDecodeError obj i)
         | _ \<Rightarrow> Inl (UnicodeDecodeError obj i))
      else if b0 < 245 then
        (case bs of
           b1 # b2 # b3 # bs3 \<Rightarrow>
             if second_ok b0 b1 \<and> is_cont b2 \<and> is_cont b3 then
               (case utf8_decode_from obj (i + 4) bs3 of
                  Inl e \<Rightarrow> Inl e
                | Inr rest \<Rightarrow>
                    Inr (((b0 - 240) * 262144 + (b1 - 128) * 4096 + (b2 - 128) * 64 + (b3 - 128))
                         # rest))
             else Inl (UnicodeDecodeError obj i)
         | _ \<Rightarrow> Inl (UnicodeDecodeError obj i))
      else Inl (UnicodeDecodeError obj i))"

definition bytes_decode_utf8 :: "bytes \<Rightarrow> exn + ustr" where
  "bytes_decode_utf8 bs = utf8_decode_from bs 0 bs"

text \<open>\<open>base64.b64encode\<close>: the standard alphabet, three bytes to four characters, padded with \<open>=\<close>.\<close>

definition b64_char :: "nat \<Rightarrow> nat" where
  "b64_char v =
     (if v < 26 then 65 + v
      else if v < 52 then 97 + (v - 26)
      else if v < 62 then 48 + (v - 52)
      else if v = 62 then 43
      else 47)"

fun b64encode :: "bytes \<Rightarrow> bytes" where
  "b64encode [] = []"
| "b64encode [a] = [b64_char (a div 4), b64_char (a mod 4 * 16), 61, 61]"
| "b64encode [a, b] =
     [b64_char (a div 4), b64_char (a mod 4 * 16 + b div 16), b64_char (b mod 16 * 4), 61]"
| "b64encode (a # b # c # rest) =
     [b64_char (a div 4), b64_char (a mod 4 * 16 + b div 16),
      b64_char (b mod 16 * 4 + c div 64), b64_char (c mod 64)] @ b64encode rest"

text \<open>
  \<open>binascii.a2b_base64\<close> in its default, non-strict mode (the loop of CPython 3.11 and
  3.12), which \<open>base64.b64decode(s)\<close> calls when \<open>validate\<close> is not set. A character outside
  the alphabet is skipped. A pad ends the input once the quad holds two or three characters
  and the pads complete it; other pads are skipped. Input that ends inside a quad raises.
\<close>

definition b64_val :: "nat \<Rightarrow> nat option" where
  "b64_val c =
     (if is_ascii_upper c then Some (c - 65)
      else if is_ascii_lower c then Some (c - 97 + 26)
      else if is_ascii_digit c then Some (c - 48 + 52)
      else if c = 43 then Some 62
      else if c = 47 then Some 63
      else None)"

fun a2b_loop :: "nat \<Rightarrow> nat \<Rightarrow> nat \<Rightarrow> bytes \<Rightarrow> bytes \<Rightarrow> exn + bytes" where
  "a2b_loop quad_pos leftchar pads bin_data [] =
     (if quad_pos \<noteq> 0 then
        (if quad_pos = 1 then Inl (Binascii_Invalid_length (length bin_data div 3 * 4 + 1))
         else Inl Binascii_Incorrect_padding)
      else Inr bin_data)"
| "a2b_loop quad_pos leftchar pads bin_data (this_ch # rest) =
     (if this_ch = 61 then
        (if quad_pos \<ge> 2 \<and> quad_pos + (pads + 1) \<ge> 4 then Inr bin_data
         else a2b_loop quad_pos leftchar (if quad_pos \<ge> 2 then pads + 1 else pads) bin_data rest)
      else
        (case b64_val this_ch of
           None \<Rightarrow> a2b_loop quad_pos leftchar pads bin_data rest
         | Some v \<Rightarrow>
             if quad_pos = 0 then a2b_loop 1 v 0 bin_data rest
             else if quad_pos = 1 then
               a2b_loop 2 (v mod 16) 0 (bin_data @ [(leftchar * 4 + v div 16) mod 256]) rest
             else if quad_pos = 2 then
               a2b_loop 3 (v mod 4) 0 (bin_data @ [(leftchar * 16 + v div 4) mod 256]) rest
             else
               a2b_loop 0 0 0 (bin_data @ [(leftchar * 64 + v) mod 256]) rest))"

definition a2b_base64 :: "bytes \<Rightarrow> exn + bytes" where
  "a2b_base64 data = a2b_loop 0 0 0 [] data"

text \<open>
  \<open>base64.b64decode\<close> on a string: it is first encoded as ASCII, and a character beyond
  ASCII raises \<open>ValueError\<close>.
\<close>

definition b64decode :: "ustr \<Rightarrow> exn + bytes" where
  "b64decode s = (if list_all (\<lambda>c. c < 128) s then a2b_base64 s else Inl ValueError_non_ascii)"

section \<open>base64\_converter\<close>

definition encode_output :: "ustr \<Rightarrow> ustr \<Rightarrow> ustr" where
  "encode_output text encoded =
     check_mark @ lit '' **BASE64 ENCODED**'' @ [10, 10]
     @ lit ''**Original:** '' @ preview text @ [10]
     @ lit ''**Encoded:** '' @ encoded @ [10, 10]
     @ clipboard @ lit '' **Copy the encoded text above!**''"

definition decode_output :: "ustr \<Rightarrow> ustr \<Rightarrow> ustr" where
  "decode_output text decoded =
     check_mark @ lit '' **BASE64 DECODED**'' @ [10, 10]
     @ lit ''**Encoded:** '' @ preview text @ [10]
     @ lit ''**Decoded:** '' @ decoded @ [10, 10]
     @ clipboard @ lit '' **Copy the decoded text above!**''"

text \<open>The value of \<open>encoded\<close> and of \<open>decoded\<close> in the two branches.\<close>

definition base64_encoded :: "pyval \<Rightarrow> exn + ustr" where
  "base64_encoded text =
     (case text of
        VStr s \<Rightarrow>
          (case str_encode_utf8 s of
             Inl e \<Rightarrow> Inl e
           | Inr bs \<Rightarrow> bytes_decode_utf8 (b64encode bs))
      | _ \<Rightarrow> Inl AttributeError)"

definition base64_decoded :: "pyval \<Rightarrow> exn + ustr" where
  "base64_decoded text =
     (case text of
        VStr s \<Rightarrow>
          (case b64decode s of
             Inl e \<Rightarrow> Inl e
           | Inr bs \<Rightarrow> bytes_decode_utf8 bs)
      | _ \<Rightarrow> Inl TypeError)"

definition base64_body :: "ustr \<Rightarrow> pyval \<Rightarrow> exn + ustr" where
  "base64_body operation text =
     (if operation = lit ''encode'' then
        (case base64_encoded text of
           Inl e \<Rightarrow> Inl e
         | Inr encoded \<Rightarrow>
             (case text of VStr s \<Rightarrow> Inr (encode_output s encoded) | _ \<Rightarrow> Inl TypeError))
      else if operation = lit ''decode'' then
        (case base64_decoded text of
           Inl e \<Rightarrow> Inl e
         | Inr decoded \<Rightarrow>
             (case text of VStr s \<Rightarrow> Inr (decode_output s decoded) | _ \<Rightarrow> Inl TypeError))
      else Inr (cross_mark @ lit '' Invalid operation. Use '' @ [39] @ lit ''encode'' @ [39]
                @ lit '' or '' @ [39] @ lit ''decode'' @ [39]))"

definition base64_converter :: "pyenv \<Rightarrow> (ustr \<rightharpoonup> pyval) \<Rightarrow> exn + ustr" where
  "base64_converter env arguments =
     (case dict_get arguments (lit ''operation'') (VStr []) of
        VStr operation \<Rightarrow>
          try_except env
            (base64_body (str_lower env operation) (dict_get arguments (lit ''text'') (VStr [])))
            (cross_mark @ lit '' Error with Base64 operation: '')
      | _ \<Rightarrow> Inl AttributeError)"

section \<open>validate\<close>

text \<open>
  \<open>token[:10]\<close> in the log line is evaluated ahead of the comparison, so a token that is not
  subscriptable raises \<open>TypeError\<close>. The comparison is \<open>==\<close> on strings.
\<close>

definition validate :: "pyenv \<Rightarrow> (ustr \<rightharpoonup> pyval) \<Rightarrow> exn + ustr" where
  "validate env arguments =
     (case dict_get arguments (lit ''token'') (VStr []) of
        VStr token \<Rightarrow>
          if token = AUTH_TOKEN env then Inr (MY_NUMBER env)
          else Inr (lit ''Invalid token'')
      | _ \<Rightarrow> Inl TypeError)"

section \<open>generate\_password\<close>

definition ascii_lowercase :: ustr where
  "ascii_lowercase = lit ''abcdefghijklmnopqrstuvwxyz''"

definition ascii_uppercase :: ustr where
  "ascii_uppercase = lit ''ABCDEFGHIJKLMNOPQRSTUVWXYZ''"

definition digits :: ustr where
  "digits = lit ''0123456789''"

definition symbol_set :: ustr where
  "symbol_set = lit ''!@#$%^&*()_+-=[]{}|;:,.<>?''"

text \<open>
  The four character sets after the toggles. Only the digits and the symbols have a
  toggle; \<open>exclude_ambiguous\<close> removes \<open>l\<close>, \<open>O\<close>, \<open>I\<close>, \<open>0\<close> and \<open>1\<close>.
\<close>

record char_sets =
  lowercase :: ustr
  uppercase :: ustr
  numbers :: ustr
  symbols :: ustr

definition password_sets :: "pyval \<Rightarrow> pyval \<Rightarrow> pyval \<Rightarrow> char_sets" where
  "password_sets include_symbols include_numbers exclude_ambiguous =
     (let initial = \<lparr> lowercase = ascii_lowercase,
                       uppercase = ascii_uppercase,
                       numbers = (if truthy include_numbers then digits else []),
                       symbols = (if truthy include_symbols then symbol_set else []) \<rparr>
      in if truthy exclude_ambiguous then
           initial \<lparr> lowercase := str_replace 108 [] (lowercase initial),
                     uppercase := str_replace 73 [] (str_replace 79 [] (uppercase initial)),
                     numbers := str_replace 49 [] (str_replace 48 [] (numbers initial)) \<rparr>
         else initial)"

definition all_chars :: "char_sets \<Rightarrow> ustr" where
  "all_chars cs = lowercase cs @ uppercase cs @ numbers cs @ symbols cs"

text \<open>
  \<open>length < 8 or length > 50\<close>: an integer is compared, a boolean counts as 0 or 1, and a
  string or \<open>None\<close> raises \<open>TypeError\<close>.
\<close>

definition length_out_of_range :: "pyval \<Rightarrow> exn + bool" where
  "length_out_of_range v =
     (case v of
        VInt n \<Rightarrow> Inr (n < 8 \<or> n > 50)
      | VBool b \<Rightarrow> Inr True
      | _ \<Rightarrow> Inl TypeError)"

text \<open>
  \<open>secrets.choice(all_chars)\<close> for each position: the runtime draws an index below the size
  of the pool (\<open>randbelow env i n\<close> is the draw for position \<open>i\<close>), and an empty pool raises.
\<close>

definition secrets_choice :: "pyenv \<Rightarrow> nat \<Rightarrow> ustr \<Rightarrow> exn + nat" where
  "secrets_choice env i pool =
     (if pool = [] then Inl IndexError
      else Inr (pool ! (randbelow env i (length pool) mod length pool)))"

fun choose_all :: "pyenv \<Rightarrow> ustr \<Rightarrow> nat list \<Rightarrow> exn + ustr" where
  "choose_all env pool [] = Inr []"
| "choose_all env pool (i # is) =
     (case secrets_choice env i pool of
        Inl e \<Rightarrow> Inl e
      | Inr c \<Rightarrow> (case choose_all env pool is of Inl e \<Rightarrow> Inl e | Inr cs \<Rightarrow> Inr (c # cs)))"

definition has_any :: "ustr \<Rightarrow> ustr \<Rightarrow> bool" where
  "has_any class password = list_ex (\<lambda>c. c \<in> set class) password"

definition strength_levels :: "ustr list" where
  "strength_levels = [lit ''Very Weak'', lit ''Weak'', lit ''Fair'', lit ''Good'', lit ''Strong'']"

definition py_index :: "'a list \<Rightarrow> nat \<Rightarrow> exn + 'a" where
  "py_index xs i = (if i < length xs then Inr (xs ! i) else Inl IndexError)"

definition strength_score :: "char_sets \<Rightarrow> ustr \<Rightarrow> nat" where
  "strength_score cs password =
     length (filter id [has_any (lowercase cs) password, has_any (uppercase cs) password,
                        has_any (numbers cs) password, has_any (symbols cs) password])"

definition contains_list :: "char_sets \<Rightarrow> ustr \<Rightarrow> ustr list" where
  "contains_list cs password =
     (if has_any (lowercase cs) password then [lit ''lowercase''] else [])
     @ (if has_any (uppercase cs) password then [lit ''uppercase''] else [])
     @ (if has_any (numbers cs) password then [lit ''numbers''] else [])
     @ (if has_any (symbols cs) password then [lit ''symbols''] else [])"

definition password_output :: "ustr \<Rightarrow> ustr \<Rightarrow> int \<Rightarrow> ustr list \<Rightarrow> ustr" where
  "password_output password strength n contains =
     closed_lock @ lit '' **PASSWORD GENERATED**'' @ [10, 10]
     @ lit ''**Password:** '' @ [96] @ password @ [96] @ [10, 10]
     @ shield @ lit '' **Security Analysis:**'' @ [10]
     @ bullet @ lit '' **Strength:** '' @ strength @ [10]
     @ bullet @ lit '' **Length:** '' @ str_int n @ lit '' characters'' @ [10]
     @ bullet @ lit '' **Contains:** '' @ str_join (lit '', '') contains @ [10, 10]
     @ warning_sign @ lit '' **Remember to store this password securely!**''"

text \<open>The handler has no \<open>try\<close>.\<close>

definition generate_password :: "pyenv \<Rightarrow> (ustr \<rightharpoonup> pyval) \<Rightarrow> exn + ustr" where
  "generate_password env arguments =
     (let len = dict_get arguments (lit ''length'') (VInt 16);
          cs = password_sets (dict_get arguments (lit ''include_symbols'') (VBool True))
                             (dict_get arguments (lit ''include_numbers'') (VBool True))
                             (dict_get arguments (lit ''exclude_ambiguous'') (VBool False))
      in case length_out_of_range len of
           Inl e \<Rightarrow> Inl e
         | Inr True \<Rightarrow>
             Inr (cross_mark @ lit '' Password length must be between 8 and 50 characters'')
         | Inr False \<Rightarrow>
             if all_chars cs = [] then
               Inr (cross_mark @ lit '' No characters available with current settings'')
             else
               (case len of
                  VInt n \<Rightarrow>
                    (case choose_all env (all_chars cs) [0 ..< nat n] of
                       Inl e \<Rightarrow> Inl e
                     | Inr password \<Rightarrow>
                         (case py_index strength_levels (min (strength_score cs password) 4) of
                            Inl e \<Rightarrow> Inl e
                          | Inr strength \<Rightarrow>
                              Inr (password_output password strength n
                                     (contains_list cs password))))
                | _ \<Rightarrow> Inl TypeError))"

section \<open>extract\_data\<close>

text \<open>
  \<open>list(set(xs))\<close>: the distinct elements. CPython fixes no order for them; the model keeps
  the order of first occurrence, and only the elements and their number are meaningful.
\<close>

definition list_set :: "ustr list \<Rightarrow> ustr list" where
  "list_set xs = remdups xs"

text \<open>
  The dictionary \<open>results\<close>, in insertion order. The matches of the e-mail, URL and phone
  patterns are the runtime's; the first phone pattern has three groups, joined by \<open>-\<close>.
\<close>

definition extract_results :: "pyenv \<Rightarrow> ustr \<Rightarrow> ustr \<Rightarrow> (ustr \<times> ustr list) list" where
  "extract_results env data_type text =
     (if data_type \<in> {lit ''emails'', lit ''all''}
      then [(lit ''emails'', list_set (findall_email env text))] else [])
     @ (if data_type \<in> {lit ''urls'', lit ''all''}
        then [(lit ''urls'', list_set (findall_url env text))] else [])
     @ (if data_type \<in> {lit ''phones'', lit ''all''}
        then [(lit ''phones'',
               list_set (map (\<lambda>(a, b, c). str_join [45] [a, b, c]) (findall_phone_groups env text)
                         @ findall_phone_intl env text))]
        else [])"

definition category_emoji :: "ustr \<Rightarrow> ustr" where
  "category_emoji category =
     (if category = lit ''emails'' then [128231]
      else if category = lit ''urls'' then [128279]
      else if category = lit ''phones'' then [128241]
      else [128196])"

definition category_block :: "pyenv \<Rightarrow> ustr \<times> ustr list \<Rightarrow> ustr" where
  "category_block env entry =
     (case entry of (category, items) \<Rightarrow>
        if items = [] then []
        else [10] @ category_emoji category @ lit '' **'' @ str_upper env category @ lit ''** (''
             @ str_nat (length items) @ lit '' found):'' @ [10]
             @ concat (map (\<lambda>item. bullet @ lit '' '' @ item @ [10]) (take 10 items))
             @ (if length items > 10
                then bullet @ lit '' ... and '' @ str_nat (length items - 10) @ lit '' more'' @ [10]
                else []))"

definition no_data_found :: "ustr \<Rightarrow> ustr" where
  "no_data_found data_type = cross_mark @ lit '' No '' @ data_type @ lit '' found in the text.''"

definition extract_body :: "pyenv \<Rightarrow> ustr \<Rightarrow> ustr \<Rightarrow> exn + ustr" where
  "extract_body env data_type text =
     (let results = extract_results env data_type text
      in if \<not> list_ex (\<lambda>entry. snd entry \<noteq> []) results then Inr (no_data_found data_type)
         else Inr (magnifier @ lit '' **EXTRACTED DATA**'' @ [10]
                   @ concat (map (category_block env) results)
                   @ [10] @ check_mark @ lit '' **Total found:** ''
                   @ str_nat (sum_list (map (\<lambda>entry. length (snd entry)) results))
                   @ lit '' items''))"

definition extract_data :: "pyenv \<Rightarrow> (ustr \<rightharpoonup> pyval) \<Rightarrow> exn + ustr" where
  "extract_data env arguments =
     (case dict_get arguments (lit ''data_type'') (VStr []) of
        VStr dt \<Rightarrow>
          (case dict_get arguments (lit ''text'') (VStr []) of
             VStr text \<Rightarrow>
               if str_strip text = [] then Inr text_is_empty
               else try_except env (extract_body env (str_lower env dt) text)
                      (cross_mark @ lit '' Error extracting data: '')
           | _ \<Rightarrow> Inl AttributeError)
      | _ \<Rightarrow> Inl AttributeError)"

section \<open>call\_tool\<close>

text \<open>
  The dispatcher. The result \<open>[TextContent(type="text", text=s)]\<close> is modelled by its text
  \<open>s\<close>, and an exception that leaves \<open>call_tool\<close> by \<open>Inl\<close>.
\<close>

definition unknown_tool :: "ustr \<Rightarrow> ustr" where
  "unknown_tool name = cross_mark @ lit '' Unknown tool: '' @ name"

definition call_tool :: "pyenv \<Rightarrow> ustr \<Rightarrow> (ustr \<rightharpoonup> pyval) \<Rightarrow> exn + ustr" where
  "call_tool env name arguments =
     (if name = lit ''validate'' then validate env arguments
      else if name = lit ''count_text'' then count_text env arguments
      else if name = lit ''convert_case'' then convert_case env arguments
      else if name = lit ''clean_text'' then clean_text env arguments
      else if name = lit ''base64_converter'' then base64_converter env arguments
      else if name = lit ''generate_password'' then generate_password env arguments
      else if name = lit ''extract_data'' then extract_data env arguments
      else Inr (unknown_tool name))"

text \<open>
  The types the input schemas of \<open>list_tools\<close> declare for the arguments: strings for
  \<open>token\<close>, \<open>text\<close>, \<open>case_type\<close>, \<open>mode\<close>, \<open>operation\<close> and \<open>data_type\<close>, an integer for
  \<open>length\<close>, booleans for the three switches of \<open>generate_password\<close>.
\<close>

definition is_str :: "pyval option \<Rightarrow> bool" where
  "is_str v = (case v of None \<Rightarrow> True | Some (VStr s) \<Rightarrow> True | _ \<Rightarrow> False)"

definition is_int :: "pyval option \<Rightarrow> bool" where
  "is_int v = (case v of None \<Rightarrow> True | Some (VInt n) \<Rightarrow> True | _ \<Rightarrow> False)"

definition is_bool :: "pyval option \<Rightarrow> bool" where
  "is_bool v = (case v of None \<Rightarrow> True | Some (VBool b) \<Rightarrow> True | _ \<Rightarrow> False)"

definition schema_typed :: "(ustr \<rightharpoonup> pyval) \<Rightarrow> bool" where
  "schema_typed arguments \<longleftrightarrow>
     is_str (arguments (lit ''token'')) \<and> is_str (arguments (lit ''text'')) \<and>
     is_str (arguments (lit ''case_type'')) \<and> is_str (arguments (lit ''mode'')) \<and>
     is_str (arguments (lit ''operation'')) \<and> is_str (arguments (lit ''data_type'')) \<and>
     is_int (arguments (lit ''length'')) \<and>
     is_bool (arguments (lit ''include_symbols'')) \<and>
     is_bool (arguments (lit ''include_numbers'')) \<and>
     is_bool (arguments (lit ''exclude_ambiguous''))"

section \<open>A concrete runtime\<close>

text \<open>
  A runtime for evaluating the handlers on concrete inputs: the tables beyond ASCII are
  the identity, every draw is \<open>i\<close>, and the extraction patterns find nothing.
\<close>

definition demo_env :: pyenv where
  "demo_env =
     \<lparr> AUTH_TOKEN = lit ''text_utils_secret'',
       MY_NUMBER = lit ''919339615464'',
       udb_upper = (\<lambda>c. [c]),
       udb_lower = (\<lambda>c. [c]),
       udb_title = (\<lambda>c. [c]),
       udb_cased = (\<lambda>c. False),
       udb_case_ignorable = (\<lambda>c. False),
       randbelow = (\<lambda>i n. i),
       format_f1 = (\<lambda>a b. str_int (a div b) @ lit ''.'' @ str_int (a * 10 div b mod 10)),
       format_pct_f1 = (\<lambda>a b. str_int (a * 100 div b) @ lit ''.'' @ str_int (a * 1000 div b mod 10)),
       exc_text = (\<lambda>e. lit ''error''),
       findall_email = (\<lambda>s. []),
       findall_url = (\<lambda>s. []),
       findall_phone_groups = (\<lambda>s. []),
       findall_phone_intl = (\<lambda>s. []) \<rparr>"

section \<open>Notions used in the statements\<close>






text \<open>
  A Unicode scalar value: a code point that is not a surrogate. The strings with a UTF-8
  encoding are the strings of scalar values.
\<close>

definition is_scalar :: "nat \<Rightarrow> bool" where
  "is_scalar c \<longleftrightarrow> c < 55296 \<or> (57344 \<le> c \<and> c < 1114112)"

text \<open>The characters the Base64 decoder looks at: the pad and the 64 of the alphabet.\<close>

definition b64_kept :: "nat \<Rightarrow> bool" where
  "b64_kept c \<longleftrightarrow> c = 61 \<or> b64_val c \<noteq> None"

text \<open>The number of alphabet characters of a Base64 input.\<close>

definition data_count :: "bytes \<Rightarrow> nat" where
  "data_count s = length (filter (\<lambda>c. b64_val c \<noteq> None) s)"

text \<open>
  A pad completes a group of four when it follows three alphabet characters of the group,
  or when it is the second of two adjacent pads that follow two. \<open>pad_completes q p s\<close>: some
  pad of s does, for a decoder that enters s with q characters of the current group read
  and p pads just seen; the decoder starts with q = 0 and p = 0.
\<close>

definition pad_completes :: "nat \<Rightarrow> nat \<Rightarrow> bytes \<Rightarrow> bool" where
  "pad_completes q p s \<longleftrightarrow>
     (\<exists>pre post. s = pre @ 61 # post \<and>
        ((q + data_count pre) mod 4 = 3 \<or>
         ((q + data_count pre) mod 4 = 2 \<and> (if pre = [] then 1 \<le> p else last pre = 61))))"

section \<open>Properties\<close>

subsection \<open>Tool names and small facts\<close>

lemma tool_names_distinct:
  "lit ''count_text'' \<noteq> lit ''validate''"
  "lit ''convert_case'' \<noteq> lit ''validate''" "lit ''convert_case'' \<noteq> lit ''count_text''"
  "lit ''clean_text'' \<noteq> lit ''validate''" "lit ''clean_text'' \<noteq> lit ''count_text''"
  "lit ''clean_text'' \<noteq> lit ''convert_case''"
  "lit ''base64_converter'' \<noteq> lit ''validate''" "lit ''base64_converter'' \<noteq> lit ''count_text''"
  "lit ''base64_converter'' \<noteq> lit ''convert_case''" "lit ''base64_converter'' \<noteq> lit ''clean_text''"
  "lit ''generate_password'' \<noteq> lit ''validate''" "lit ''generate_password'' \<noteq> lit ''count_text''"
  "lit ''generate_password'' \<noteq> lit ''convert_case''" "lit ''generate_password'' \<noteq> lit ''clean_text''"
  "lit ''generate_password'' \<noteq> lit ''base64_converter''"
  "lit ''extract_data'' \<noteq> lit ''validate''" "lit ''extract_data'' \<noteq> lit ''count_text''"
  "lit ''extract_data'' \<noteq> lit ''convert_case''" "lit ''extract_data'' \<noteq> lit ''clean_text''"
  "lit ''extract_data'' \<noteq> lit ''base64_converter''" "lit ''extract_data'' \<noteq> lit ''generate_password''"
  by (simp_all add: lit_def)

subsection \<open>validate\<close>

text \<open>
  C3. With a string token, validate returns the configured identifier when the token equals
  the configured secret and the invalid-token string in every other case; the comparison is
  equality of the code point sequences, so a token that differs in case or carries extra
  whitespace is rejected. When the identifier is not itself the text "Invalid token", the
  identifier comes back exactly for the secret.
\<close>

theorem validate_exact:
  "call_tool env (lit ''validate'') (arguments(lit ''token'' \<mapsto> VStr token)) =
     Inr (if token = AUTH_TOKEN env then MY_NUMBER env else lit ''Invalid token'')
   \<and> (MY_NUMBER env \<noteq> lit ''Invalid token'' \<longrightarrow>
        (call_tool env (lit ''validate'') (arguments(lit ''token'' \<mapsto> VStr token))
           = Inr (MY_NUMBER env)
         \<longleftrightarrow> token = AUTH_TOKEN env))"
  by (simp add: call_tool_def validate_def dict_get_def)

text \<open>
  The secret is accepted; the same letters in upper case, and the secret followed by a
  space, are rejected.
\<close>

theorem validate_exact_witness:
  "MY_NUMBER demo_env \<noteq> lit ''Invalid token''
   \<and> call_tool demo_env (lit ''validate'') [lit ''token'' \<mapsto> VStr (lit ''text_utils_secret'')]
       = Inr (lit ''919339615464'')
   \<and> call_tool demo_env (lit ''validate'') [lit ''token'' \<mapsto> VStr (lit ''TEXT_UTILS_SECRET'')]
       = Inr (lit ''Invalid token'')
   \<and> call_tool demo_env (lit ''validate'') [lit ''token'' \<mapsto> VStr (lit ''text_utils_secret '')]
       = Inr (lit ''Invalid token'')"
  using validate_exact [of demo_env Map.empty "lit ''text_utils_secret''"]
        validate_exact [of demo_env Map.empty "lit ''TEXT_UTILS_SECRET''"]
        validate_exact [of demo_env Map.empty "lit ''text_utils_secret ''"]
  by (simp add: demo_env_def lit_def)

subsection \<open>count\_text on the sample sentence\<close>

lemma sample_lit:
  "lit ''Hello world. This is great!'' =
     [72, 101, 108, 108, 111, 32, 119, 111, 114, 108, 100, 46, 32, 84, 104, 105, 115, 32,
      105, 115, 32, 103, 114, 101, 97, 116, 33]"
  by (simp add: lit_def)

lemma sample_stats:
  "count_stats (lit ''Hello world. This is great!'') =
     \<lparr> chars_with_spaces = 27, chars_without_spaces = 23, words = 5, sentences = 2,
       paragraphs = 1, lines = 1, reading_time = 1 \<rparr>"
  unfolding sample_lit
  by (simp add: count_stats_def str_split_ws_def py_isspace_def str_replace_def
      count_sentences_def count_paragraphs_def is_sentence_end_def non_blank_def
      str_split_def str_strip_def strip_with_def Let_def)

lemma sample_non_blank: "str_strip (lit ''Hello world. This is great!'') \<noteq> []"
  unfolding sample_lit by (simp add: str_strip_def strip_with_def py_isspace_def)

text \<open>
  C7, as stated: the sample sentence would have 5 words, 2 sentences and 28 characters.
  It has 27 characters, so the three values together are not what count\_text computes.
\<close>

theorem count_text_sample_counterexample:
  "\<not> (words (count_stats (lit ''Hello world. This is great!'')) = 5
      \<and> sentences (count_stats (lit ''Hello world. This is great!'')) = 2
      \<and> chars_with_spaces (count_stats (lit ''Hello world. This is great!'')) = 28)"
  by (simp add: sample_stats)

text \<open>
  C7, amended: count\_text on "Hello world. This is great!" reports 5 words, 2 sentences
  and 27 characters with spaces (and 23 without, 1 paragraph, 1 line, 1 minute).
\<close>

theorem count_text_sample:
  "call_tool env (lit ''count_text'')
       [lit ''text'' \<mapsto> VStr (lit ''Hello world. This is great!'')] =
     render_stats env
       \<lparr> chars_with_spaces = 27, chars_without_spaces = 23, words = 5, sentences = 2,
         paragraphs = 1, lines = 1, reading_time = 1 \<rparr>"
  using sample_non_blank
  by (simp add: call_tool_def tool_names_distinct count_text_def dict_get_def sample_stats)

subsection \<open>count\_text: paragraphs\<close>

lemma two_lines_lit:
  "lit ''first line'' @ [10] @ lit ''second line'' =
     [102, 105, 114, 115, 116, 32, 108, 105, 110, 101, 10,
      115, 101, 99, 111, 110, 100, 32, 108, 105, 110, 101]"
  by (simp add: lit_def)

text \<open>
  C5. The claim asks for 2 paragraphs on a text of two lines with no blank line between
  them, as the comment on the fallback in the source does ("if no double newlines, count
  single newlines"). The fallback is taken only when the first count is 0, which a text
  that passed the emptiness check never gives: the text below is one segment of the split
  at blank lines, so count\_text reports 1 paragraph, while it has 2 non-blank lines.
\<close>

theorem count_paragraphs_two_lines:
  "paragraphs (count_stats (lit ''first line'' @ [10] @ lit ''second line'')) = 1
   \<and> length (non_blank (str_split [10] (lit ''first line'' @ [10] @ lit ''second line''))) = 2
   \<and> str_split [10, 10] (lit ''first line'' @ [10] @ lit ''second line'')
       = [lit ''first line'' @ [10] @ lit ''second line'']"
  unfolding two_lines_lit
  by (simp add: count_stats_def count_paragraphs_def non_blank_def str_split_def str_strip_def
      strip_with_def py_isspace_def Let_def)

subsection \<open>extract\_data: an unknown data type\<close>

text \<open>
  C9. For a non-blank text and a data type that, lower-cased, is none of emails, urls,
  phones and all, no category is searched and extract\_data returns the report of the
  no-match condition, "No <data\_type> found in the text.", with the unknown data type in
  it. There is no branch for an invalid selector, unlike in convert\_case, clean\_text and
  base64\_converter.
\<close>

theorem extract_data_unknown_type:
  assumes "arguments (lit ''text'') = Some (VStr text)"
      and "arguments (lit ''data_type'') = Some (VStr dt)"
      and "str_strip text \<noteq> []"
      and "str_lower env dt \<notin> {lit ''emails'', lit ''urls'', lit ''phones'', lit ''all''}"
  shows "call_tool env (lit ''extract_data'') arguments = Inr (no_data_found (str_lower env dt))"
  using assms
  by (simp add: call_tool_def tool_names_distinct extract_data_def dict_get_def try_except_def
      extract_body_def extract_results_def)

lemma lower_foo: "str_lower demo_env (lit ''foo'') = lit ''foo''"
  by (simp add: lit_def str_lower_def lower_ucs4_def to_lower_full_def ascii_lower_def is_ascii_upper_def)

text \<open>
  The data type "foo" on the text "hello".
\<close>

theorem extract_data_unknown_type_witness:
  "str_strip (lit ''hello'') \<noteq> []
   \<and> call_tool demo_env (lit ''extract_data'')
        [lit ''text'' \<mapsto> VStr (lit ''hello''), lit ''data_type'' \<mapsto> VStr (lit ''foo'')]
      = Inr (cross_mark @ lit '' No foo found in the text.'')"
proof -
  let ?args = "[lit ''text'' \<mapsto> VStr (lit ''hello''), lit ''data_type'' \<mapsto> VStr (lit ''foo'')]"
  have t: "?args (lit ''text'') = Some (VStr (lit ''hello''))" by (simp add: lit_def)
  have d: "?args (lit ''data_type'') = Some (VStr (lit ''foo''))" by simp
  have b: "str_strip (lit ''hello'') \<noteq> []"
    by (simp add: lit_def str_strip_def strip_with_def py_isspace_def)
  have c: "str_lower demo_env (lit ''foo'')
             \<notin> {lit ''emails'', lit ''urls'', lit ''phones'', lit ''all''}"
    unfolding lower_foo by (simp add: lit_def)
  have "call_tool demo_env (lit ''extract_data'') ?args
          = Inr (no_data_found (str_lower demo_env (lit ''foo'')))"
    by (rule extract_data_unknown_type [OF t d b c])
  then show ?thesis
    unfolding lower_foo no_data_found_def using b by (simp add: lit_def)
qed

subsection \<open>generate\_password: the character pool\<close>

lemma password_sets_classes:
  "lowercase (password_sets s n a) =
     (if truthy a then lit ''abcdefghijkmnopqrstuvwxyz'' else lit ''abcdefghijklmnopqrstuvwxyz'')"
  "uppercase (password_sets s n a) =
     (if truthy a then lit ''ABCDEFGHJKLMNPQRSTUVWXYZ'' else lit ''ABCDEFGHIJKLMNOPQRSTUVWXYZ'')"
  "numbers (password_sets s n a) =
     (if truthy n then (if truthy a then lit ''23456789'' else lit ''0123456789'') else [])"
  "symbols (password_sets s n a) = (if truthy s then symbol_set else [])"
  by (simp_all add: password_sets_def Let_def ascii_lowercase_def ascii_uppercase_def digits_def
      str_replace_def lit_def)

lemma pool_never_empty: "all_chars (password_sets s n a) \<noteq> []"
  by (simp add: all_chars_def password_sets_classes lit_def)

lemma generate_password_not_empty_pool_error:
  "generate_password env arguments
     \<noteq> Inr (cross_mark @ lit '' No characters available with current settings'')"
  by (auto simp: generate_password_def Let_def pool_never_empty password_output_def
      cross_mark_def closed_lock_def lit_def
      split: sum.splits bool.splits pyval.splits)

subsection \<open>Divisions\<close>

lemma strip_with_Nil: "strip_with P [] = []"
  by (simp add: strip_with_def)

lemma render_stats_returns:
  "\<exists>r. render_stats env st = Inr r"
  by (simp add: render_stats_def py_truediv_f1_def max_def)

lemma clean_text_body_returns:
  assumes "text \<noteq> []"
  shows "\<exists>r. clean_text_body env mode text = Inr r"
proof (cases "cleaned_text mode text")
  case None
  then show ?thesis by (simp add: clean_text_body_def)
next
  case (Some cleaned)
  then obtain m where "mode = VStr m"
    by (auto simp: cleaned_text_def split: if_splits)
  with Some assms show ?thesis
    by (simp add: clean_text_body_def py_upper_def py_truediv_pct_f1_def)
qed

text \<open>
  C10. For a text that passes the emptiness check, the divisors of count\_text,
  \<open>max(sentences, 1)\<close> and \<open>max(words, 1)\<close>, and the divisor of clean\_text, the length of
  the text, are positive; the report of count\_text and the body of clean\_text (in any
  mode) return a text and raise nothing, \<open>ZeroDivisionError\<close> included.
\<close>

theorem no_division_by_zero:
  assumes "str_strip text \<noteq> []"
  shows "0 < max (int (sentences (count_stats text))) 1
       \<and> 0 < max (int (words (count_stats text))) 1
       \<and> 0 < int (length text)
       \<and> (\<exists>r. render_stats env (count_stats text) = Inr r)
       \<and> (\<exists>r. clean_text_body env mode text = Inr r)"
proof -
  from assms have "text \<noteq> []"
    by (auto simp: str_strip_def strip_with_Nil)
  moreover have "0 < max (int (sentences (count_stats text))) 1"
    and "0 < max (int (words (count_stats text))) 1"
    by (simp_all add: max_def)
  ultimately show ?thesis
    using render_stats_returns clean_text_body_returns by simp
qed

text \<open>
  The sample sentence, cleaned in basic mode.
\<close>

theorem no_division_by_zero_witness:
  "str_strip (lit ''Hello world. This is great!'') \<noteq> []
   \<and> 0 < max (int (sentences (count_stats (lit ''Hello world. This is great!'')))) 1
   \<and> 0 < max (int (words (count_stats (lit ''Hello world. This is great!'')))) 1
   \<and> 0 < int (length (lit ''Hello world. This is great!''))
   \<and> (\<exists>r. render_stats demo_env (count_stats (lit ''Hello world. This is great!'')) = Inr r)
   \<and> (\<exists>r. clean_text_body demo_env (VStr (lit ''basic'')) (lit ''Hello world. This is great!'') = Inr r)"
  using no_division_by_zero [of "lit ''Hello world. This is great!''" demo_env "VStr (lit ''basic'')"]
  by (simp add: str_strip_def strip_with_def py_isspace_def lit_def)

subsection \<open>call\_tool returns on typed arguments\<close>

lemma get_str:
  "is_str (arguments key) \<Longrightarrow> \<exists>s. dict_get arguments key (VStr d) = VStr s"
  by (auto simp: is_str_def dict_get_def split: option.splits pyval.splits)

lemma validate_returns:
  "schema_typed arguments \<Longrightarrow> \<exists>r. validate env arguments = Inr r"
  using get_str [of arguments "lit ''token''" "[]"]
  by (auto simp: schema_typed_def validate_def)

lemma count_text_returns:
  "schema_typed arguments \<Longrightarrow> \<exists>r. count_text env arguments = Inr r"
  using get_str [of arguments "lit ''text''" "[]"] render_stats_returns
  by (auto simp: schema_typed_def count_text_def)

lemma try_except_returns: "\<exists>r. try_except env body prefix = Inr r"
  by (simp add: try_except_def split: sum.splits)

lemma convert_case_returns:
  "schema_typed arguments \<Longrightarrow> \<exists>r. convert_case env arguments = Inr r"
  using get_str [of arguments "lit ''text''" "[]"] get_str [of arguments "lit ''case_type''" "[]"]
        try_except_returns
  by (auto simp: schema_typed_def convert_case_def)

lemma clean_text_returns:
  "schema_typed arguments \<Longrightarrow> \<exists>r. clean_text env arguments = Inr r"
  using get_str [of arguments "lit ''text''" "[]"] try_except_returns
  by (auto simp: schema_typed_def clean_text_def)

lemma base64_converter_returns:
  "schema_typed arguments \<Longrightarrow> \<exists>r. base64_converter env arguments = Inr r"
  using get_str [of arguments "lit ''operation''" "[]"] try_except_returns
  by (auto simp: schema_typed_def base64_converter_def)

lemma extract_data_returns:
  "schema_typed arguments \<Longrightarrow> \<exists>r. extract_data env arguments = Inr r"
  using get_str [of arguments "lit ''text''" "[]"] get_str [of arguments "lit ''data_type''" "[]"]
        try_except_returns
  by (auto simp: schema_typed_def extract_data_def)

lemma choose_all_returns:
  "pool \<noteq> [] \<Longrightarrow> \<exists>password. choose_all env pool is = Inr password"
  by (induction "is") (auto simp: secrets_choice_def)

lemma strength_returns:
  "\<exists>strength. py_index strength_levels (min k 4) = Inr strength"
  by (simp add: py_index_def strength_levels_def)

lemma generate_password_returns:
  assumes "schema_typed arguments"
  shows "\<exists>r. generate_password env arguments = Inr r"
proof -
  from assms have "is_int (arguments (lit ''length''))"
    by (simp add: schema_typed_def)
  then obtain n where len: "dict_get arguments (lit ''length'') (VInt 16) = VInt n"
    by (auto simp: is_int_def dict_get_def split: option.splits pyval.splits)
  let ?cs = "password_sets (dict_get arguments (lit ''include_symbols'') (VBool True))
                           (dict_get arguments (lit ''include_numbers'') (VBool True))
                           (dict_get arguments (lit ''exclude_ambiguous'') (VBool False))"
  obtain password where pw: "choose_all env (all_chars ?cs) [0 ..< nat n] = Inr password"
    using choose_all_returns [OF pool_never_empty] by blast
  obtain strength where st:
    "py_index strength_levels (min (strength_score ?cs password) 4) = Inr strength"
    using strength_returns by blast
  show ?thesis
  proof (cases "n < 8 \<or> n > 50")
    case True
    then show ?thesis
      by (simp add: generate_password_def Let_def len length_out_of_range_def)
  next
    case False
    then show ?thesis
      by (simp add: generate_password_def Let_def len length_out_of_range_def pool_never_empty
          pw st)
  qed
qed

text \<open>
  C1, as stated: call\_tool would return a text for every argument mapping. A text that is
  a number makes count\_text raise \<open>AttributeError\<close> at \<open>text.strip()\<close>, a length that is a
  string makes generate\_password raise \<open>TypeError\<close> at the comparison, and a token that is
  \<open>None\<close> makes validate raise \<open>TypeError\<close> at \<open>token[:10]\<close>; these three handlers have no
  \<open>try\<close>, and the others read and strip their arguments ahead of theirs.
\<close>

theorem call_tool_raises_counterexample:
  "call_tool demo_env (lit ''count_text'') [lit ''text'' \<mapsto> VInt 5] = Inl AttributeError
   \<and> call_tool demo_env (lit ''generate_password'') [lit ''length'' \<mapsto> VStr (lit ''16'')]
        = Inl TypeError
   \<and> call_tool demo_env (lit ''validate'') [lit ''token'' \<mapsto> VNone] = Inl TypeError"
  by (simp add: call_tool_def tool_names_distinct count_text_def generate_password_def
      validate_def dict_get_def length_out_of_range_def Let_def)

text \<open>
  C1, amended: for every tool name and every argument mapping whose values have the types
  the input schemas declare, call\_tool returns a text and raises nothing.
\<close>

theorem call_tool_returns:
  assumes "schema_typed arguments"
  shows "\<exists>r. call_tool env name arguments = Inr r"
  using assms validate_returns count_text_returns convert_case_returns clean_text_returns
        base64_converter_returns generate_password_returns extract_data_returns
  by (simp add: call_tool_def)

text \<open>
  count\_text on the sample sentence.
\<close>

theorem call_tool_returns_witness:
  "schema_typed [lit ''text'' \<mapsto> VStr (lit ''Hello world. This is great!'')]
   \<and> (\<exists>r. call_tool demo_env (lit ''count_text'')
              [lit ''text'' \<mapsto> VStr (lit ''Hello world. This is great!'')] = Inr r)"
proof -
  have typed: "schema_typed [lit ''text'' \<mapsto> VStr (lit ''Hello world. This is great!'')]"
    by (simp add: schema_typed_def is_str_def is_int_def is_bool_def lit_def)
  from call_tool_returns [OF typed] typed show ?thesis by blast
qed

subsection \<open>generate\_password: the pool and the switches\<close>

lemma choose_all_map:
  "pool \<noteq> [] \<Longrightarrow>
   choose_all env pool is =
     Inr (map (\<lambda>i. pool ! (randbelow env i (length pool) mod length pool)) is)"
  by (induction "is") (simp_all add: secrets_choice_def)

lemma generate_password_report:
  assumes "dict_get arguments (lit ''length'') (VInt 16) = VInt n" and "8 \<le> n" and "n \<le> 50"
  shows "\<exists>strength contains.
           generate_password env arguments =
             Inr (password_output
                    (map (\<lambda>i. all_chars (password_sets
                                   (dict_get arguments (lit ''include_symbols'') (VBool True))
                                   (dict_get arguments (lit ''include_numbers'') (VBool True))
                                   (dict_get arguments (lit ''exclude_ambiguous'') (VBool False)))
                               ! (randbelow env i (length (all_chars (password_sets
                                   (dict_get arguments (lit ''include_symbols'') (VBool True))
                                   (dict_get arguments (lit ''include_numbers'') (VBool True))
                                   (dict_get arguments (lit ''exclude_ambiguous'') (VBool False)))))
                                  mod length (all_chars (password_sets
                                   (dict_get arguments (lit ''include_symbols'') (VBool True))
                                   (dict_get arguments (lit ''include_numbers'') (VBool True))
                                   (dict_get arguments (lit ''exclude_ambiguous'') (VBool False))))))
                         [0 ..< nat n])
                    strength n contains)"
proof -
  let ?cs = "password_sets (dict_get arguments (lit ''include_symbols'') (VBool True))
                           (dict_get arguments (lit ''include_numbers'') (VBool True))
                           (dict_get arguments (lit ''exclude_ambiguous'') (VBool False))"
  let ?pw = "map (\<lambda>i. all_chars ?cs ! (randbelow env i (length (all_chars ?cs))
                                         mod length (all_chars ?cs))) [0 ..< nat n]"
  have pw: "choose_all env (all_chars ?cs) [0 ..< nat n] = Inr ?pw"
    by (rule choose_all_map) (rule pool_never_empty)
  obtain strength where st:
    "py_index strength_levels (min (strength_score ?cs ?pw) 4) = Inr strength"
    using strength_returns by blast
  from assms(2,3) have "\<not> (n < 8 \<or> n > 50)" by simp
  then have "generate_password env arguments
               = Inr (password_output ?pw strength n (contains_list ?cs ?pw))"
    by (simp add: generate_password_def Let_def assms(1) length_out_of_range_def
        pool_never_empty pw st)
  then show ?thesis by blast
qed

text \<open>
  C4, as stated: each of the four classes could be toggled off by the caller, and with
  every class off the empty pool would be reported. A caller has three switches. With the
  symbols and the digits off and the ambiguous characters excluded, generate\_password
  still draws a password, from the letters; and no arguments at all make it return the
  empty-pool report.
\<close>

theorem password_pool_counterexample:
  "call_tool demo_env (lit ''generate_password'')
      [lit ''length'' \<mapsto> VInt 8, lit ''include_symbols'' \<mapsto> VBool False,
       lit ''include_numbers'' \<mapsto> VBool False, lit ''exclude_ambiguous'' \<mapsto> VBool True]
     = Inr (password_output (lit ''abcdefgh'') (lit ''Weak'') 8 [lit ''lowercase''])
   \<and> \<not> (\<exists>env arguments.
          call_tool env (lit ''generate_password'') arguments
            = Inr (cross_mark @ lit '' No characters available with current settings''))"
proof -
  let ?cs = "password_sets (VBool False) (VBool False) (VBool True)"
  have keys: "lit ''length'' \<noteq> lit ''include_symbols''" "lit ''length'' \<noteq> lit ''include_numbers''"
    "lit ''length'' \<noteq> lit ''exclude_ambiguous''" "lit ''include_symbols'' \<noteq> lit ''include_numbers''"
    "lit ''include_symbols'' \<noteq> lit ''exclude_ambiguous''"
    "lit ''include_numbers'' \<noteq> lit ''exclude_ambiguous''"
    by (simp_all add: lit_def)
  have upt8: "[0 ..< 8] = [0, 1, 2, 3, 4, 5, 6, 7 :: nat]"
    by (simp add: upt_rec)
  have pool: "all_chars ?cs = lit ''abcdefghijkmnopqrstuvwxyzABCDEFGHJKLMNPQRSTUVWXYZ''"
    by (simp add: all_chars_def password_sets_classes lit_def)
  have "choose_all demo_env (all_chars ?cs) [0 ..< 8]
          = Inr (map (\<lambda>i. all_chars ?cs ! (randbelow demo_env i (length (all_chars ?cs))
                                            mod length (all_chars ?cs))) [0 ..< 8])"
    by (rule choose_all_map) (rule pool_never_empty)
  also have "map (\<lambda>i. all_chars ?cs ! (randbelow demo_env i (length (all_chars ?cs))
                                         mod length (all_chars ?cs))) [0 ..< 8]
             = lit ''abcdefgh''"
    unfolding pool upt8 by (simp add: demo_env_def lit_def)
  finally have pw: "choose_all demo_env (all_chars ?cs) [0 ..< 8] = Inr (lit ''abcdefgh'')" .
  have score: "strength_score ?cs (lit ''abcdefgh'') = 1"
    by (simp add: strength_score_def has_any_def password_sets_classes lit_def)
  have contains: "contains_list ?cs (lit ''abcdefgh'') = [lit ''lowercase'']"
    by (simp add: contains_list_def has_any_def password_sets_classes lit_def)
  have strength: "py_index strength_levels (Suc 0) = Inr (lit ''Weak'')"
    by (simp add: py_index_def strength_levels_def)
  have "generate_password demo_env
      [lit ''length'' \<mapsto> VInt 8, lit ''include_symbols'' \<mapsto> VBool False,
       lit ''include_numbers'' \<mapsto> VBool False, lit ''exclude_ambiguous'' \<mapsto> VBool True]
     = Inr (password_output (lit ''abcdefgh'') (lit ''Weak'') 8 [lit ''lowercase''])"
    using pw
    by (simp add: generate_password_def Let_def dict_get_def keys length_out_of_range_def
        pool_never_empty score contains strength)
  then show ?thesis
    using generate_password_not_empty_pool_error
    by (simp add: call_tool_def tool_names_distinct)
qed

text \<open>
  C4, amended: for a length from 8 to 50, generate\_password draws every character of the
  password from a pool of four classes built from the caller's arguments: the lower-case
  and the upper-case letters, which are always in the pool; the digits, when
  \<open>include_numbers\<close> is true; and the symbols, when \<open>include_symbols\<close> is true;
  \<open>exclude_ambiguous\<close> removes l, O, I, 0 and 1. Position \<open>i\<close> of the password is the pool's
  character at the index the random source draws for \<open>i\<close>. The pool is never empty, and
  generate\_password never returns the empty-pool report.
\<close>

theorem password_pool_toggles:
  assumes "dict_get arguments (lit ''length'') (VInt 16) = VInt n" and "8 \<le> n" and "n \<le> 50"
      and "pool =
        (if truthy (dict_get arguments (lit ''exclude_ambiguous'') (VBool False))
         then lit ''abcdefghijkmnopqrstuvwxyz'' else lit ''abcdefghijklmnopqrstuvwxyz'')
        @ (if truthy (dict_get arguments (lit ''exclude_ambiguous'') (VBool False))
           then lit ''ABCDEFGHJKLMNPQRSTUVWXYZ'' else lit ''ABCDEFGHIJKLMNOPQRSTUVWXYZ'')
        @ (if truthy (dict_get arguments (lit ''include_numbers'') (VBool True))
           then (if truthy (dict_get arguments (lit ''exclude_ambiguous'') (VBool False))
                 then lit ''23456789'' else lit ''0123456789'')
           else [])
        @ (if truthy (dict_get arguments (lit ''include_symbols'') (VBool True))
           then lit ''!@#$%^&*()_+-=[]{}|;:,.<>?'' else [])"
  shows "pool \<noteq> []
       \<and> (\<exists>strength contains.
            call_tool env (lit ''generate_password'') arguments =
              Inr (password_output
                     (map (\<lambda>i. pool ! (randbelow env i (length pool) mod length pool))
                          [0 ..< nat n])
                     strength n contains))
       \<and> call_tool env (lit ''generate_password'') arguments
            \<noteq> Inr (cross_mark @ lit '' No characters available with current settings'')"
proof -
  let ?cs = "password_sets (dict_get arguments (lit ''include_symbols'') (VBool True))
                           (dict_get arguments (lit ''include_numbers'') (VBool True))
                           (dict_get arguments (lit ''exclude_ambiguous'') (VBool False))"
  have pool: "all_chars ?cs = pool"
    unfolding assms(4) all_chars_def password_sets_classes symbol_set_def by simp
  from pool_never_empty [of "dict_get arguments (lit ''include_symbols'') (VBool True)"
      "dict_get arguments (lit ''include_numbers'') (VBool True)"
      "dict_get arguments (lit ''exclude_ambiguous'') (VBool False)"]
  have ne: "pool \<noteq> []" unfolding pool .
  from generate_password_report [OF assms(1,2,3), of env]
  have "\<exists>strength contains.
          generate_password env arguments =
            Inr (password_output
                   (map (\<lambda>i. pool ! (randbelow env i (length pool) mod length pool))
                        [0 ..< nat n])
                   strength n contains)"
    unfolding pool .
  with ne generate_password_not_empty_pool_error [of env arguments] show ?thesis
    by (simp add: call_tool_def tool_names_distinct)
qed

text \<open>The default arguments: length 16, digits and symbols on, nothing excluded.\<close>

theorem password_pool_toggles_witness:
  "dict_get Map.empty (lit ''length'') (VInt 16) = VInt 16
   \<and> (\<exists>strength contains.
        call_tool demo_env (lit ''generate_password'') Map.empty =
          Inr (password_output (lit ''abcdefghijklmnop'') strength 16 contains))"
proof -
  let ?pool = "lit ''abcdefghijklmnopqrstuvwxyz'' @ lit ''ABCDEFGHIJKLMNOPQRSTUVWXYZ''
               @ lit ''0123456789'' @ lit ''!@#$%^&*()_+-=[]{}|;:,.<>?''"
  have len: "dict_get Map.empty (lit ''length'') (VInt 16) = VInt 16"
    by (simp add: dict_get_def)
  have pool: "?pool =
        (if truthy (dict_get Map.empty (lit ''exclude_ambiguous'') (VBool False))
         then lit ''abcdefghijkmnopqrstuvwxyz'' else lit ''abcdefghijklmnopqrstuvwxyz'')
        @ (if truthy (dict_get Map.empty (lit ''exclude_ambiguous'') (VBool False))
           then lit ''ABCDEFGHJKLMNPQRSTUVWXYZ'' else lit ''ABCDEFGHIJKLMNOPQRSTUVWXYZ'')
        @ (if truthy (dict_get Map.empty (lit ''include_numbers'') (VBool True))
           then (if truthy (dict_get Map.empty (lit ''exclude_ambiguous'') (VBool False))
                 then lit ''23456789'' else lit ''0123456789'')
           else [])
        @ (if truthy (dict_get Map.empty (lit ''include_symbols'') (VBool True))
           then lit ''!@#$%^&*()_+-=[]{}|;:,.<>?'' else [])"
    by (simp add: dict_get_def)
  have upt16: "[0 ..< nat 16] = [0, 1, 2, 3, 4, 5, 6, 7, 8, 9, 10, 11, 12, 13, 14, 15]"
    by (simp add: upt_rec)
  have pw: "map (\<lambda>i. ?pool ! (randbelow demo_env i (length ?pool) mod length ?pool))
                [0 ..< nat 16] = lit ''abcdefghijklmnop''"
    unfolding upt16 by (simp add: demo_env_def lit_def)
  from password_pool_toggles [OF len _ _ pool, of demo_env] len
  show ?thesis unfolding pw by simp
qed

subsection \<open>convert\_case: idempotence\<close>

















lemma re_sub_run_hd:
  "\<not> P c \<Longrightarrow> re_sub_run P k repl (c # cs) = c # re_sub_run P k repl cs"
  by simp
















subsection \<open>convert\_case: converting twice\<close>











subsection \<open>Base64 and UTF-8 round trips\<close>

lemma b64_val_char: "v < 64 \<Longrightarrow> b64_val (b64_char v) = Some v"
  by (auto simp: b64_val_def b64_char_def is_ascii_upper_def is_ascii_lower_def is_ascii_digit_def)

lemma b64_char_not_pad: "b64_char v \<noteq> 61"
  by (auto simp: b64_char_def)


lemma a2b_data:
  "b64_val c = Some v \<Longrightarrow> c \<noteq> 61 \<Longrightarrow>
   a2b_loop q l p out (c # rest) =
     (if q = 0 then a2b_loop 1 v 0 out rest
      else if q = 1 then a2b_loop 2 (v mod 16) 0 (out @ [(l * 4 + v div 16) mod 256]) rest
      else if q = 2 then a2b_loop 3 (v mod 4) 0 (out @ [(l * 16 + v div 4) mod 256]) rest
      else a2b_loop 0 0 0 (out @ [(l * 64 + v) mod 256]) rest)"
  by simp

lemma a2b_char:
  "v < 64 \<Longrightarrow>
   a2b_loop q l p out (b64_char v # rest) =
     (if q = 0 then a2b_loop 1 v 0 out rest
      else if q = 1 then a2b_loop 2 (v mod 16) 0 (out @ [(l * 4 + v div 16) mod 256]) rest
      else if q = 2 then a2b_loop 3 (v mod 4) 0 (out @ [(l * 16 + v div 4) mod 256]) rest
      else a2b_loop 0 0 0 (out @ [(l * 64 + v) mod 256]) rest)"
  by (rule a2b_data) (simp_all add: b64_val_char b64_char_not_pad)

lemma a2b_step:
  assumes "v < 64"
  shows "a2b_loop 0 l p out (b64_char v # rest) = a2b_loop 1 v 0 out rest"
    and "a2b_loop 1 l p out (b64_char v # rest)
           = a2b_loop 2 (v mod 16) 0 (out @ [(l * 4 + v div 16) mod 256]) rest"
    and "a2b_loop 2 l p out (b64_char v # rest)
           = a2b_loop 3 (v mod 4) 0 (out @ [(l * 16 + v div 4) mod 256]) rest"
    and "a2b_loop 3 l p out (b64_char v # rest)
           = a2b_loop 0 0 0 (out @ [(l * 64 + v) mod 256]) rest"
  using assms by (simp_all add: a2b_char del: a2b_loop.simps)

lemma a2b_quad:
  assumes "a < 256" "b < 256" "c < 256"
  shows "a2b_loop 0 0 0 out
           (b64_char (a div 4) # b64_char (a mod 4 * 16 + b div 16)
            # b64_char (b mod 16 * 4 + c div 64) # b64_char (c mod 64) # rest)
         = a2b_loop 0 0 0 (out @ [a, b, c]) rest"
proof -
  have v: "a div 4 < 64" "a mod 4 * 16 + b div 16 < 64" "b mod 16 * 4 + c div 64 < 64"
    "c mod 64 < 64"
    using assms by auto
  have e1: "(a div 4 * 4 + (a mod 4 * 16 + b div 16) div 16) mod 256 = a"
    using assms by auto
  have e2: "((a mod 4 * 16 + b div 16) mod 16 * 16 + (b mod 16 * 4 + c div 64) div 4) mod 256 = b"
    using assms by auto
  have e3: "((b mod 16 * 4 + c div 64) mod 4 * 64 + c mod 64) mod 256 = c"
    using assms by auto
  show ?thesis
    unfolding a2b_step(1) [OF v(1)] a2b_step(2) [OF v(2)] a2b_step(3) [OF v(3)]
      a2b_step(4) [OF v(4)] e1 e2 e3
    by simp
qed

lemma a2b_pair:
  assumes "a < 256" "b < 256"
  shows "a2b_loop 0 0 0 out
           [b64_char (a div 4), b64_char (a mod 4 * 16 + b div 16), b64_char (b mod 16 * 4), 61]
         = Inr (out @ [a, b])"
proof -
  have v: "a div 4 < 64" "a mod 4 * 16 + b div 16 < 64" "b mod 16 * 4 < 64"
    using assms by auto
  have e1: "(a div 4 * 4 + (a mod 4 * 16 + b div 16) div 16) mod 256 = a"
    using assms by auto
  have e2: "((a mod 4 * 16 + b div 16) mod 16 * 16 + (b mod 16 * 4) div 4) mod 256 = b"
    using assms by auto
  show ?thesis
    unfolding a2b_step(1) [OF v(1)] a2b_step(2) [OF v(2)] a2b_step(3) [OF v(3)] e1 e2
    by simp
qed

lemma a2b_single:
  assumes "a < 256"
  shows "a2b_loop 0 0 0 out [b64_char (a div 4), b64_char (a mod 4 * 16), 61, 61]
         = Inr (out @ [a])"
proof -
  have v: "a div 4 < 64" "a mod 4 * 16 < 64"
    using assms by auto
  have e1: "(a div 4 * 4 + (a mod 4 * 16) div 16) mod 256 = a"
    using assms by auto
  show ?thesis
    unfolding a2b_step(1) [OF v(1)] a2b_step(2) [OF v(2)] e1
    by simp
qed

lemma a2b_b64encode:
  "\<forall>b\<in>set bs. b < 256 \<Longrightarrow> a2b_loop 0 0 0 out (b64encode bs) = Inr (out @ bs)"
proof (induction bs arbitrary: out rule: b64encode.induct)
  case 1
  then show ?case by simp
next
  case (2 a)
  then show ?case using a2b_single [of a out] by simp
next
  case (3 a b)
  then show ?case using a2b_pair [of a b out] by simp
next
  case (4 a b c rest)
  then have "a < 256" "b < 256" "c < 256" and rest: "\<forall>b\<in>set rest. b < 256" by auto
  from a2b_quad [OF this(1,2,3)] "4.IH" [OF rest, of "out @ [a, b, c]"]
  show ?case by simp
qed



lemma low_byte_split: "(c::nat) mod 4096 = c div 64 mod 64 * 64 + c mod 64"
  using mod_mult2_eq [of c 64 64] by simp

lemma high_byte_split: "(c::nat) mod 262144 = c div 4096 mod 64 * 4096 + c mod 4096"
  using mod_mult2_eq [of c 4096 64] by simp

lemma mid_byte: "(c::nat) div 64 mod 64 = c mod 4096 div 64"
  using mod_mult2_eq [of c 64 64] by simp

lemma big_byte: "(c::nat) div 4096 mod 64 = c mod 262144 div 4096"
  using mod_mult2_eq [of c 4096 64] by simp

lemma three_value:
  "(224 + c div 4096 - 224) * 4096 + (128 + c div 64 mod 64 - 128) * 64
     + (128 + c mod 64 - 128) = (c::nat)"
proof -
  have "c div 4096 * 4096 + c mod 4096 = c" by simp
  then show ?thesis unfolding low_byte_split by simp
qed

lemma four_value:
  "(240 + c div 262144 - 240) * 262144 + (128 + c div 4096 mod 64 - 128) * 4096
     + (128 + c div 64 mod 64 - 128) * 64 + (128 + c mod 64 - 128) = (c::nat)"
proof -
  have "c div 262144 * 262144 + c mod 262144 = c" by simp
  then show ?thesis unfolding high_byte_split low_byte_split by simp
qed

lemma three_second_ok:
  assumes "2048 \<le> (c::nat)" "c < 65536" "\<not> (55296 \<le> c \<and> c < 57344)"
  shows "second_ok (224 + c div 4096) (128 + c div 64 mod 64)"
proof -
  define y where "y = c mod 4096"
  have c: "c = c div 4096 * 4096 + y" and y: "y < 4096"
    by (simp_all add: y_def)
  have b1: "c div 64 mod 64 = y div 64" by (simp add: mid_byte y_def)
  have lo: "32 \<le> y div 64" if "c div 4096 = 0"
  proof -
    from c that assms(1) have "2048 \<le> y" by simp
    from div_le_mono [OF this, of 64] show ?thesis by simp
  qed
  have hi: "y div 64 < 32" if "c div 4096 = 13"
  proof -
    from c that have "c = 53248 + y" by simp
    with assms(3) y have "y < 32 * 64" by simp
    then show ?thesis by (rule less_mult_imp_div_less)
  qed
  have top: "y div 64 < 64"
    using y by (intro less_mult_imp_div_less) simp
  have "c div 4096 < 16"
    using assms(2) by (intro less_mult_imp_div_less) simp
  with lo hi top show ?thesis
    unfolding second_ok_def b1 by auto
qed

lemma four_second_ok:
  assumes "65536 \<le> (c::nat)" "c < 1114112"
  shows "second_ok (240 + c div 262144) (128 + c div 4096 mod 64)"
proof -
  define z where "z = c mod 262144"
  have c: "c = c div 262144 * 262144 + z" and z: "z < 262144"
    by (simp_all add: z_def)
  have b1: "c div 4096 mod 64 = z div 4096" by (simp add: big_byte z_def)
  have lo: "16 \<le> z div 4096" if "c div 262144 = 0"
  proof -
    from c that assms(1) have "65536 \<le> z" by simp
    from div_le_mono [OF this, of 4096] show ?thesis by simp
  qed
  have hi: "z div 4096 < 16" if "c div 262144 = 4"
  proof -
    from c that have "c = 1048576 + z" by simp
    with assms(2) have "z < 16 * 4096" by simp
    then show ?thesis by (rule less_mult_imp_div_less)
  qed
  have top: "z div 4096 < 64"
    using z by (intro less_mult_imp_div_less) simp
  from lo hi top show ?thesis
    unfolding second_ok_def b1 by auto
qed

lemma decode_one:
  "c < 128 \<Longrightarrow>
   utf8_decode_from obj i (c # rest) =
     (case utf8_decode_from obj (i + 1) rest of Inl e \<Rightarrow> Inl e | Inr r \<Rightarrow> Inr (c # r))"
  by simp

lemma decode_two:
  assumes "128 \<le> c" "c < 2048"
  shows "utf8_decode_from obj i ((192 + c div 64) # (128 + c mod 64) # rest) =
     (case utf8_decode_from obj (i + 2) rest of Inl e \<Rightarrow> Inl e | Inr r \<Rightarrow> Inr (c # r))"
proof -
  have b0: "\<not> 192 + c div 64 < 128" "\<not> 192 + c div 64 < 194" "192 + c div 64 < 224"
    using assms by arith+
  have b1: "is_cont (128 + c mod 64)"
    by (simp add: is_cont_def)
  have v: "(192 + c div 64 - 192) * 64 + (128 + c mod 64 - 128) = c"
    by simp
  show ?thesis
    by (simp only: utf8_decode_from.simps b0 b1 v if_True if_False list.case)
qed

lemma decode_three:
  assumes "2048 \<le> c" "c < 65536" "\<not> (55296 \<le> c \<and> c < 57344)"
  shows "utf8_decode_from obj i
           ((224 + c div 4096) # (128 + c div 64 mod 64) # (128 + c mod 64) # rest) =
     (case utf8_decode_from obj (i + 3) rest of Inl e \<Rightarrow> Inl e | Inr r \<Rightarrow> Inr (c # r))"
proof -
  have b0: "\<not> 224 + c div 4096 < 128" "\<not> 224 + c div 4096 < 194"
    "\<not> 224 + c div 4096 < 224" "224 + c div 4096 < 240"
    using assms by arith+
  have b2: "is_cont (128 + c mod 64)"
    by (simp add: is_cont_def)
  show ?thesis
    by (simp only: utf8_decode_from.simps b0 three_second_ok [OF assms] b2 three_value
        if_True if_False list.case simp_thms)
qed

lemma decode_four:
  assumes "65536 \<le> c" "c < 1114112"
  shows "utf8_decode_from obj i
           ((240 + c div 262144) # (128 + c div 4096 mod 64) # (128 + c div 64 mod 64)
            # (128 + c mod 64) # rest) =
     (case utf8_decode_from obj (i + 4) rest of Inl e \<Rightarrow> Inl e | Inr r \<Rightarrow> Inr (c # r))"
proof -
  have b0: "\<not> 240 + c div 262144 < 128" "\<not> 240 + c div 262144 < 194"
    "\<not> 240 + c div 262144 < 224" "\<not> 240 + c div 262144 < 240" "240 + c div 262144 < 245"
    using assms by arith+
  have b2: "is_cont (128 + c div 64 mod 64)" "is_cont (128 + c mod 64)"
    by (simp_all add: is_cont_def)
  show ?thesis
    by (simp only: utf8_decode_from.simps b0 four_second_ok [OF assms] b2 four_value
        if_True if_False list.case simp_thms)
qed

lemma mod64_lt: "(x::nat) mod 64 < 128"
proof -
  have "x mod 64 < 64" by simp
  then show ?thesis by linarith
qed

lemma encoded_char:
  assumes "is_scalar c"
  shows "\<exists>bs k. utf8_encode_char c = Some bs \<and> (\<forall>b\<in>set bs. b < 256) \<and>
           (\<forall>obj i rest. utf8_decode_from obj i (bs @ rest) =
              (case utf8_decode_from obj (i + k) rest of
                 Inl e \<Rightarrow> Inl e | Inr r \<Rightarrow> Inr (c # r)))"
proof -
  consider "c < 128" | "128 \<le> c" "c < 2048"
    | "2048 \<le> c" "c < 65536" "\<not> (55296 \<le> c \<and> c < 57344)"
    | "65536 \<le> c" "c < 1114112"
    using assms unfolding is_scalar_def by linarith
  then show ?thesis
  proof cases
    case 1
    then have e: "utf8_encode_char c = Some [c]" by (simp add: utf8_encode_char_def)
    have lt: "\<forall>b\<in>set [c]. b < 256" using 1 by simp
    have d: "\<forall>obj i rest. utf8_decode_from obj i ([c] @ rest) =
               (case utf8_decode_from obj (i + 1) rest of
                  Inl e \<Rightarrow> Inl e | Inr r \<Rightarrow> Inr (c # r))"
      using decode_one [OF 1] by (simp del: utf8_decode_from.simps)
    from e lt d show ?thesis by blast
  next
    case 2
    let ?bs = "[192 + c div 64, 128 + c mod 64]"
    from 2 have e: "utf8_encode_char c = Some ?bs"
      by (simp add: utf8_encode_char_def)
    have "192 + c div 64 < 256" using 2 by arith
    then have lt: "\<forall>b\<in>set ?bs. b < 256" by (simp add: mod64_lt)
    have d: "\<forall>obj i rest. utf8_decode_from obj i (?bs @ rest) =
               (case utf8_decode_from obj (i + 2) rest of
                  Inl e \<Rightarrow> Inl e | Inr r \<Rightarrow> Inr (c # r))"
      using decode_two [OF 2] by (simp del: utf8_decode_from.simps)
    from e lt d show ?thesis by blast
  next
    case 3
    let ?bs = "[224 + c div 4096, 128 + c div 64 mod 64, 128 + c mod 64]"
    from 3 have e: "utf8_encode_char c = Some ?bs"
      by (simp add: utf8_encode_char_def)
    have "224 + c div 4096 < 256" using 3 by arith
    then have lt: "\<forall>b\<in>set ?bs. b < 256" by (simp add: mod64_lt)
    have d: "\<forall>obj i rest. utf8_decode_from obj i (?bs @ rest) =
               (case utf8_decode_from obj (i + 3) rest of
                  Inl e \<Rightarrow> Inl e | Inr r \<Rightarrow> Inr (c # r))"
      using decode_three [OF 3] by (simp del: utf8_decode_from.simps)
    from e lt d show ?thesis by blast
  next
    case 4
    let ?bs = "[240 + c div 262144, 128 + c div 4096 mod 64, 128 + c div 64 mod 64,
                128 + c mod 64]"
    from 4 have e: "utf8_encode_char c = Some ?bs"
      by (simp add: utf8_encode_char_def)
    have "240 + c div 262144 < 256" using 4 by arith
    then have lt: "\<forall>b\<in>set ?bs. b < 256" by (simp add: mod64_lt)
    have d: "\<forall>obj i rest. utf8_decode_from obj i (?bs @ rest) =
               (case utf8_decode_from obj (i + 4) rest of
                  Inl e \<Rightarrow> Inl e | Inr r \<Rightarrow> Inr (c # r))"
      using decode_four [OF 4] by (simp del: utf8_decode_from.simps)
    from e lt d show ?thesis by blast
  qed
qed

lemma utf8_round_trip_from:
  "\<forall>c\<in>set s. is_scalar c \<Longrightarrow>
   \<exists>bs. utf8_encode_from o1 i s = Inr bs \<and> (\<forall>b\<in>set bs. b < 256) \<and>
        (\<forall>o2 j. utf8_decode_from o2 j bs = Inr s)"
proof (induction s arbitrary: i)
  case Nil
  then show ?case by simp
next
  case (Cons c cs)
  then have "is_scalar c" and cs: "\<forall>c\<in>set cs. is_scalar c" by simp_all
  from encoded_char [OF this(1)] obtain b k where
    b: "utf8_encode_char c = Some b" "\<forall>x\<in>set b. x < 256"
    and d: "\<And>obj i rest. utf8_decode_from obj i (b @ rest) =
              (case utf8_decode_from obj (i + k) rest of
                 Inl e \<Rightarrow> Inl e | Inr r \<Rightarrow> Inr (c # r))"
    by blast
  from Cons.IH [OF cs, of "i + 1"] obtain bs where
    bs: "utf8_encode_from o1 (i + 1) cs = Inr bs" "\<forall>x\<in>set bs. x < 256"
    and ds: "\<And>o2 j. utf8_decode_from o2 j bs = Inr cs"
    by blast
  have "utf8_encode_from o1 i (c # cs) = Inr (b @ bs)"
    using b(1) bs(1) by simp
  moreover have "\<forall>x\<in>set (b @ bs). x < 256" using b(2) bs(2) by auto
  moreover have "utf8_decode_from o2 j (b @ bs) = Inr (c # cs)" for o2 j
    unfolding d ds by simp
  ultimately show ?case by blast
qed



lemma lower_operation:
  "str_lower env (lit ''encode'') = lit ''encode''"
  "str_lower env (lit ''decode'') = lit ''decode''"
  by (simp_all add: str_lower_def lit_def lower_ucs4_def to_lower_full_def ascii_lower_def
      is_ascii_upper_def)

lemma base64_arguments:
  "dict_get [lit ''text'' \<mapsto> VStr t, lit ''operation'' \<mapsto> VStr operation] (lit ''operation'') d
     = VStr operation"
  "dict_get [lit ''text'' \<mapsto> VStr t, lit ''operation'' \<mapsto> VStr operation] (lit ''text'') d
     = VStr t"
  by (simp_all add: dict_get_def lit_def)


lemma decode_call:
  "call_tool env (lit ''base64_converter'')
      [lit ''text'' \<mapsto> VStr t, lit ''operation'' \<mapsto> VStr (lit ''decode'')]
     = (case base64_decoded (VStr t) of
          Inl e \<Rightarrow> Inr (cross_mark @ lit '' Error with Base64 operation: '' @ exc_text env e)
        | Inr decoded \<Rightarrow> Inr (decode_output t decoded))"
proof -
  have "lit ''decode'' \<noteq> lit ''encode''" by (simp add: lit_def)
  then show ?thesis
    by (simp add: call_tool_def tool_names_distinct base64_converter_def base64_arguments
        lower_operation base64_body_def try_except_def split: sum.splits)
qed




subsection \<open>UTF-8: what the decoder accepts\<close>

lemma pack_two:
  fixes x d :: nat
  assumes "d < 64"
  shows "(x * 64 + d) div 64 = x" and "(x * 64 + d) mod 64 = d"
  using assms by simp_all

lemma encode_two:
  assumes "194 \<le> b0" and "b0 < 224" and "is_cont b1"
  shows "utf8_encode_char ((b0 - 192) * 64 + (b1 - 128)) = Some [b0, b1]"
proof -
  define a where "a = b0 - 192"
  define b where "b = b1 - 128"
  from assms have b0: "b0 = 192 + a" and b1: "b1 = 128 + b" and a: "2 \<le> a" "a < 32" and b: "b < 64"
    by (auto simp: a_def b_def is_cont_def)
  define c where "c = a * 64 + b"
  have lo: "128 \<le> c" and hi: "c < 2048" using a b by (simp_all add: c_def)
  have dv: "c div 64 = a" unfolding c_def by (rule pack_two(1) [OF b])
  have md: "c mod 64 = b" unfolding c_def by (rule pack_two(2) [OF b])
  have "utf8_encode_char c = Some [192 + c div 64, 128 + c mod 64]"
    using lo hi by (simp add: utf8_encode_char_def)
  then have "utf8_encode_char c = Some [b0, b1]"
    unfolding dv md b0 [symmetric] b1 [symmetric] .
  then show ?thesis unfolding c_def a_def b_def .
qed

lemma encode_three:
  assumes "224 \<le> b0" and "b0 < 240" and "second_ok b0 b1" and "is_cont b2"
  shows "utf8_encode_char ((b0 - 224) * 4096 + (b1 - 128) * 64 + (b2 - 128)) = Some [b0, b1, b2]"
proof -
  define a where "a = b0 - 224"
  define b where "b = b1 - 128"
  define d where "d = b2 - 128"
  from assms have b0: "b0 = 224 + a" and a: "a < 16" by (simp_all add: a_def)
  from assms(3) have b1: "b1 = 128 + b" and b: "b < 64"
    by (auto simp: b_def second_ok_def split: if_splits)
  from assms(4) have b2: "b2 = 128 + d" and d: "d < 64" by (auto simp: d_def is_cont_def)
  from assms(3) have first: "a = 0 \<longrightarrow> 32 \<le> b" and sur: "a = 13 \<longrightarrow> b < 32"
    unfolding b0 b1 second_ok_def by (auto split: if_splits)
  define c where "c = a * 4096 + b * 64 + d"
  have c: "c = (a * 64 + b) * 64 + d" by (simp add: c_def)
  have lo: "2048 \<le> c" using first unfolding c_def by (cases "a = 0") simp_all
  have hi: "c < 65536" using a b d unfolding c_def by simp
  have ns: "\<not> (55296 \<le> c \<and> c < 57344)"
  proof -
    consider "a \<le> 12" | "a = 13" | "14 \<le> a" by linarith
    then show ?thesis
    proof cases
      case 1 with b d show ?thesis unfolding c_def by simp
    next
      case 2 with sur d show ?thesis unfolding c_def by simp
    next
      case 3 then show ?thesis unfolding c_def by simp
    qed
  qed
  have d64: "c div 64 = a * 64 + b" unfolding c by (rule pack_two(1) [OF d])
  have md: "c mod 64 = d" unfolding c by (rule pack_two(2) [OF d])
  have mm: "c div 64 mod 64 = b" unfolding d64 by (rule pack_two(2) [OF b])
  have "c div 4096 = c div 64 div 64" using div_mult2_eq [of c 64 64] by simp
  also have "\<dots> = a" unfolding d64 by (rule pack_two(1) [OF b])
  finally have dv: "c div 4096 = a" .
  have "utf8_encode_char c = Some [224 + c div 4096, 128 + c div 64 mod 64, 128 + c mod 64]"
    using lo hi ns by (simp add: utf8_encode_char_def)
  then have "utf8_encode_char c = Some [b0, b1, b2]"
    unfolding dv mm md b0 [symmetric] b1 [symmetric] b2 [symmetric] .
  then show ?thesis unfolding c_def a_def b_def d_def .
qed

lemma encode_four:
  assumes "240 \<le> b0" and "b0 < 245" and "second_ok b0 b1" and "is_cont b2" and "is_cont b3"
  shows "utf8_encode_char
           ((b0 - 240) * 262144 + (b1 - 128) * 4096 + (b2 - 128) * 64 + (b3 - 128))
         = Some [b0, b1, b2, b3]"
proof -
  define a where "a = b0 - 240"
  define b where "b = b1 - 128"
  define d where "d = b2 - 128"
  define e where "e = b3 - 128"
  from assms have b0: "b0 = 240 + a" and a: "a < 5" by (simp_all add: a_def)
  from assms(3) have b1: "b1 = 128 + b" and b: "b < 64"
    by (auto simp: b_def second_ok_def split: if_splits)
  from assms(4) have b2: "b2 = 128 + d" and d: "d < 64" by (auto simp: d_def is_cont_def)
  from assms(5) have b3: "b3 = 128 + e" and e: "e < 64" by (auto simp: e_def is_cont_def)
  from assms(3) have first: "a = 0 \<longrightarrow> 16 \<le> b" and top: "a = 4 \<longrightarrow> b < 16"
    unfolding b0 b1 second_ok_def by (auto split: if_splits)
  define c where "c = a * 262144 + b * 4096 + d * 64 + e"
  have c: "c = ((a * 64 + b) * 64 + d) * 64 + e" by (simp add: c_def)
  have lo: "65536 \<le> c" using first unfolding c_def by (cases "a = 0") simp_all
  have hi: "c < 1114112"
  proof (cases "a = 4")
    case True with top d e show ?thesis unfolding c_def by simp
  next
    case False with a have "a \<le> 3" by simp
    with b d e show ?thesis unfolding c_def by simp
  qed
  have d64: "c div 64 = (a * 64 + b) * 64 + d" unfolding c by (rule pack_two(1) [OF e])
  have md: "c mod 64 = e" unfolding c by (rule pack_two(2) [OF e])
  have mm: "c div 64 mod 64 = d" unfolding d64 by (rule pack_two(2) [OF d])
  have "c div 4096 = c div 64 div 64" using div_mult2_eq [of c 64 64] by simp
  also have "\<dots> = a * 64 + b" unfolding d64 by (rule pack_two(1) [OF d])
  finally have d4096: "c div 4096 = a * 64 + b" .
  have m4096: "c div 4096 mod 64 = b" unfolding d4096 by (rule pack_two(2) [OF b])
  have "c div 262144 = c div 4096 div 64" using div_mult2_eq [of c 4096 64] by simp
  also have "\<dots> = a" unfolding d4096 by (rule pack_two(1) [OF b])
  finally have dv: "c div 262144 = a" .
  have "utf8_encode_char c =
          Some [240 + c div 262144, 128 + c div 4096 mod 64, 128 + c div 64 mod 64, 128 + c mod 64]"
    using lo hi by (simp add: utf8_encode_char_def)
  then have "utf8_encode_char c = Some [b0, b1, b2, b3]"
    unfolding dv m4096 mm md b0 [symmetric] b1 [symmetric] b2 [symmetric] b3 [symmetric] .
  then show ?thesis unfolding c_def a_def b_def d_def e_def .
qed

lemma decode_encodes:
  "utf8_decode_from o2 j bs = Inr d \<Longrightarrow> utf8_encode_from o1 i d = Inr bs"
proof (induction bs arbitrary: j d i rule: length_induct)
  case (1 bs)
  note IH = 1(1) [rule_format]
  note dec = 1(2)
  show ?case
  proof (cases bs)
    case Nil
    with dec show ?thesis by simp
  next
    case (Cons b0 r)
    consider "b0 < 128" | "128 \<le> b0 \<and> b0 < 194" | "194 \<le> b0 \<and> b0 < 224"
      | "224 \<le> b0 \<and> b0 < 240" | "240 \<le> b0 \<and> b0 < 245" | "245 \<le> b0"
      by linarith
    then show ?thesis
    proof cases
      case 1
      with dec obtain r' where r': "utf8_decode_from o2 (j + 1) r = Inr r'" and d: "d = b0 # r'"
        unfolding Cons by (auto split: sum.splits)
      have "utf8_encode_from o1 (i + 1) r' = Inr r"
        by (rule IH [OF _ r']) (simp add: Cons)
      moreover from 1 have "utf8_encode_char b0 = Some [b0]" by (simp add: utf8_encode_char_def)
      ultimately show ?thesis unfolding d Cons by simp
    next
      case 2
      with dec show ?thesis unfolding Cons by simp
    next
      case 3
      with dec obtain b1 r1 r' where r: "r = b1 # r1" and c1: "is_cont b1"
        and r': "utf8_decode_from o2 (j + 2) r1 = Inr r'"
        and d: "d = ((b0 - 192) * 64 + (b1 - 128)) # r'"
        unfolding Cons by (auto split: sum.splits list.splits if_splits)
      have "utf8_encode_from o1 (i + 1) r' = Inr r1"
        by (rule IH [OF _ r']) (simp add: Cons r)
      moreover from 3 c1 have "utf8_encode_char ((b0 - 192) * 64 + (b1 - 128)) = Some [b0, b1]"
        by (simp add: encode_two)
      ultimately show ?thesis unfolding d Cons r by simp
    next
      case 4
      with dec obtain b1 b2 r2 r' where r: "r = b1 # b2 # r2"
        and ok: "second_ok b0 b1" "is_cont b2"
        and r': "utf8_decode_from o2 (j + 3) r2 = Inr r'"
        and d: "d = ((b0 - 224) * 4096 + (b1 - 128) * 64 + (b2 - 128)) # r'"
        unfolding Cons by (auto split: sum.splits list.splits if_splits)
      have "utf8_encode_from o1 (i + 1) r' = Inr r2"
        by (rule IH [OF _ r']) (simp add: Cons r)
      moreover from 4 ok
      have "utf8_encode_char ((b0 - 224) * 4096 + (b1 - 128) * 64 + (b2 - 128)) = Some [b0, b1, b2]"
        by (simp add: encode_three)
      ultimately show ?thesis unfolding d Cons r by simp
    next
      case 5
      with dec obtain b1 b2 b3 r3 r' where r: "r = b1 # b2 # b3 # r3"
        and ok: "second_ok b0 b1" "is_cont b2" "is_cont b3"
        and r': "utf8_decode_from o2 (j + 4) r3 = Inr r'"
        and d: "d = ((b0 - 240) * 262144 + (b1 - 128) * 4096 + (b2 - 128) * 64 + (b3 - 128)) # r'"
        unfolding Cons by (auto split: sum.splits list.splits if_splits)
      have "utf8_encode_from o1 (i + 1) r' = Inr r3"
        by (rule IH [OF _ r']) (simp add: Cons r)
      moreover from 5 ok
      have "utf8_encode_char
              ((b0 - 240) * 262144 + (b1 - 128) * 4096 + (b2 - 128) * 64 + (b3 - 128))
            = Some [b0, b1, b2, b3]"
        by (simp add: encode_four)
      ultimately show ?thesis unfolding d Cons r by simp
    next
      case 6
      with dec show ?thesis unfolding Cons by simp
    qed
  qed
qed

lemma encode_scalar:
  "utf8_encode_from o1 i s = Inr bs \<Longrightarrow> \<forall>c\<in>set s. is_scalar c"
proof (induction s arbitrary: i bs)
  case Nil
  then show ?case by simp
next
  case (Cons c cs)
  then obtain b rest where b: "utf8_encode_char c = Some b"
    and rest: "utf8_encode_from o1 (i + 1) cs = Inr rest"
    by (auto split: option.splits sum.splits)
  from b have "is_scalar c"
    by (auto simp: utf8_encode_char_def is_scalar_def split: if_splits)
  with Cons.IH [OF rest] show ?case by simp
qed

lemma utf8_decodes_iff:
  "bytes_decode_utf8 bs = Inr d \<longleftrightarrow> str_encode_utf8 d = Inr bs"
proof
  assume "bytes_decode_utf8 bs = Inr d"
  then show "str_encode_utf8 d = Inr bs"
    unfolding bytes_decode_utf8_def str_encode_utf8_def by (rule decode_encodes)
next
  assume e: "str_encode_utf8 d = Inr bs"
  then have "\<forall>c\<in>set d. is_scalar c"
    unfolding str_encode_utf8_def by (rule encode_scalar)
  from utf8_round_trip_from [OF this, of d 0] e
  show "bytes_decode_utf8 bs = Inr d"
    unfolding bytes_decode_utf8_def str_encode_utf8_def by auto
qed

subsection \<open>base64\_converter: decoding\<close>

lemma a2b_loop_filter:
  "a2b_loop q l p out s = a2b_loop q l p out (filter b64_kept s)"
proof (induction s arbitrary: q l p out)
  case Nil
  then show ?case by simp
next
  case (Cons c cs)
  show ?case
  proof (cases "b64_kept c")
    case True
    then show ?thesis
      using Cons.IH by (auto simp: b64_kept_def split: option.splits)
  next
    case False
    then have "c \<noteq> 61" "b64_val c = None" by (auto simp: b64_kept_def)
    then have "a2b_loop q l p out (c # cs) = a2b_loop q l p out cs" by simp
    with False Cons.IH show ?thesis by simp
  qed
qed

lemma b64decode_discards:
  "b64decode t =
     (if list_all (\<lambda>c. c < 128) t then a2b_base64 (filter b64_kept t)
      else Inl ValueError_non_ascii)"
  using a2b_loop_filter [of 0 0 0 "[]" t] by (simp add: b64decode_def a2b_base64_def)

lemma error_report_prefix: "is_error_report (cross_mark @ x)"
  by (simp add: is_error_report_def cross_mark_def)

lemma decode_output_no_error: "\<not> is_error_report (decode_output t d)"
  by (simp add: is_error_report_def decode_output_def cross_mark_def check_mark_def)

subsection \<open>Base64: when the decoder rejects\<close>

lemma b64_val_pad: "b64_val 61 = None"
  by (simp add: b64_val_def is_ascii_upper_def is_ascii_lower_def is_ascii_digit_def)

lemma data_count_simps:
  "data_count [] = 0"
  "data_count (61 # s) = data_count s"
  "b64_val c \<noteq> None \<Longrightarrow> data_count (c # s) = Suc (data_count s)"
  by (simp_all add: data_count_def b64_val_pad)

lemma pad_completes_Nil: "\<not> pad_completes q p []"
  by (simp add: pad_completes_def)

lemma pad_completes_pad:
  assumes "q < 4"
  shows "pad_completes q p (61 # cs) \<longleftrightarrow>
           (q = 3 \<or> (q = 2 \<and> 1 \<le> p)) \<or> pad_completes q (if 2 \<le> q then p + 1 else p) cs"
proof
  assume "pad_completes q p (61 # cs)"
  then obtain pre post where s: "61 # cs = pre @ 61 # post"
    and c: "(q + data_count pre) mod 4 = 3 \<or>
            ((q + data_count pre) mod 4 = 2 \<and> (if pre = [] then 1 \<le> p else last pre = 61))"
    unfolding pad_completes_def by blast
  show "(q = 3 \<or> (q = 2 \<and> 1 \<le> p)) \<or> pad_completes q (if 2 \<le> q then p + 1 else p) cs"
  proof (cases pre)
    case Nil
    with c assms have "q = 3 \<or> (q = 2 \<and> 1 \<le> p)" by (simp add: data_count_simps)
    then show ?thesis by blast
  next
    case (Cons x pre')
    with s have x: "x = 61" and cs: "cs = pre' @ 61 # post" by simp_all
    have dc: "data_count pre = data_count pre'" by (simp add: Cons x data_count_simps)
    have "(q + data_count pre') mod 4 = 3 \<or>
            ((q + data_count pre') mod 4 = 2 \<and>
             (if pre' = [] then 1 \<le> (if 2 \<le> q then p + 1 else p) else last pre' = 61))"
    proof (cases "pre' = []")
      case True
      with c dc assms show ?thesis by (auto simp: data_count_simps)
    next
      case False
      with c dc Cons show ?thesis by simp
    qed
    with cs have "pad_completes q (if 2 \<le> q then p + 1 else p) cs"
      unfolding pad_completes_def by blast
    then show ?thesis by blast
  qed
next
  assume a: "(q = 3 \<or> (q = 2 \<and> 1 \<le> p)) \<or> pad_completes q (if 2 \<le> q then p + 1 else p) cs"
  show "pad_completes q p (61 # cs)"
  proof (cases "q = 3 \<or> (q = 2 \<and> 1 \<le> p)")
    case True
    then have "61 # cs = [] @ 61 # cs \<and>
        ((q + data_count []) mod 4 = 3 \<or>
         ((q + data_count []) mod 4 = 2 \<and> (if ([]::bytes) = [] then 1 \<le> p else last [] = 61)))"
      by (auto simp: data_count_simps)
    then show ?thesis unfolding pad_completes_def by blast
  next
    case False
    with a have "pad_completes q (if 2 \<le> q then p + 1 else p) cs" by blast
    then obtain pre post where s: "cs = pre @ 61 # post"
      and c: "(q + data_count pre) mod 4 = 3 \<or>
              ((q + data_count pre) mod 4 = 2 \<and>
               (if pre = [] then 1 \<le> (if 2 \<le> q then p + 1 else p) else last pre = 61))"
      unfolding pad_completes_def by blast
    have "61 # cs = (61 # pre) @ 61 # post" by (simp add: s)
    moreover have "(q + data_count (61 # pre)) mod 4 = 3 \<or>
         ((q + data_count (61 # pre)) mod 4 = 2 \<and>
          (if 61 # pre = [] then 1 \<le> p else last (61 # pre) = 61))"
      using c by (auto simp: data_count_simps)
    ultimately show ?thesis unfolding pad_completes_def by blast
  qed
qed

lemma suc_quad: "(q + Suc n) mod 4 = (Suc q mod 4 + n) mod 4"
  by (simp add: mod_add_left_eq)

lemma pad_completes_data:
  assumes "b64_val c \<noteq> None"
  shows "pad_completes q p (c # cs) \<longleftrightarrow> pad_completes (Suc q mod 4) 0 cs"
proof -
  from assms have ne: "c \<noteq> 61" using b64_val_pad by auto
  show ?thesis
  proof
    assume "pad_completes q p (c # cs)"
    then obtain pre post where s: "c # cs = pre @ 61 # post"
      and k: "(q + data_count pre) mod 4 = 3 \<or>
              ((q + data_count pre) mod 4 = 2 \<and> (if pre = [] then 1 \<le> p else last pre = 61))"
      unfolding pad_completes_def by blast
    from s ne obtain pre' where pre: "pre = c # pre'" and cs: "cs = pre' @ 61 # post"
      by (cases pre) auto
    have e: "(q + data_count pre) mod 4 = (Suc q mod 4 + data_count pre') mod 4"
      unfolding pre data_count_simps(3) [OF assms] by (rule suc_quad)
    have l: "(if pre = [] then 1 \<le> p else last pre = 61) \<longrightarrow>
             (if pre' = [] then 1 \<le> (0::nat) else last pre' = 61)"
      using ne by (simp add: pre)
    have "(Suc q mod 4 + data_count pre') mod 4 = 3 \<or>
          ((Suc q mod 4 + data_count pre') mod 4 = 2 \<and>
           (if pre' = [] then 1 \<le> (0::nat) else last pre' = 61))"
      using k l unfolding e by blast
    with cs show "pad_completes (Suc q mod 4) 0 cs"
      unfolding pad_completes_def by blast
  next
    assume "pad_completes (Suc q mod 4) 0 cs"
    then obtain pre post where s: "cs = pre @ 61 # post"
      and k: "(Suc q mod 4 + data_count pre) mod 4 = 3 \<or>
              ((Suc q mod 4 + data_count pre) mod 4 = 2 \<and>
               (if pre = [] then 1 \<le> (0::nat) else last pre = 61))"
      unfolding pad_completes_def by blast
    have app: "c # cs = (c # pre) @ 61 # post" by (simp add: s)
    have e: "(q + data_count (c # pre)) mod 4 = (Suc q mod 4 + data_count pre) mod 4"
      unfolding data_count_simps(3) [OF assms] by (rule suc_quad)
    have l: "(if pre = [] then 1 \<le> (0::nat) else last pre = 61) \<longrightarrow>
             (if c # pre = [] then 1 \<le> p else last (c # pre) = 61)"
      by simp
    have "(q + data_count (c # pre)) mod 4 = 3 \<or>
         ((q + data_count (c # pre)) mod 4 = 2 \<and>
          (if c # pre = [] then 1 \<le> p else last (c # pre) = 61))"
      using k l unfolding e by blast
    with app show "pad_completes q p (c # cs)"
      unfolding pad_completes_def by blast
  qed
qed

lemma a2b_pad_step:
  "a2b_loop q l p out (61 # cs) =
     (if 2 \<le> q \<and> 4 \<le> q + (p + 1) then Inr out
      else a2b_loop q l (if 2 \<le> q then p + 1 else p) out cs)"
  by simp

lemma a2b_data_quad:
  assumes "b64_val c = Some v" and "q < 4"
  shows "\<exists>l' out'. a2b_loop q l p out (c # cs) = a2b_loop (Suc q mod 4) l' 0 out' cs"
proof -
  from assms(1) have ne: "c \<noteq> 61" using b64_val_pad by auto
  note d = a2b_data [OF assms(1) ne, of q l p out cs]
  from assms(2) consider "q = 0" | "q = 1" | "q = 2" | "q = 3" by linarith
  then show ?thesis
  proof cases
    case 1
    have m: "Suc q mod 4 = 1" by (simp add: 1)
    have "a2b_loop q l p out (c # cs) = a2b_loop 1 v 0 out cs"
      using d by (simp add: 1 del: a2b_loop.simps)
    then show ?thesis unfolding m by blast
  next
    case 2
    have m: "Suc q mod 4 = 2" by (simp add: 2)
    have "a2b_loop q l p out (c # cs)
            = a2b_loop 2 (v mod 16) 0 (out @ [(l * 4 + v div 16) mod 256]) cs"
      using d by (simp add: 2 del: a2b_loop.simps)
    then show ?thesis unfolding m by blast
  next
    case 3
    have m: "Suc q mod 4 = 3" by (simp add: 3)
    have "a2b_loop q l p out (c # cs)
            = a2b_loop 3 (v mod 4) 0 (out @ [(l * 16 + v div 4) mod 256]) cs"
      using d by (simp add: 3 del: a2b_loop.simps)
    then show ?thesis unfolding m by blast
  next
    case 4
    have m: "Suc q mod 4 = 0" by (simp add: 4)
    have "a2b_loop q l p out (c # cs)
            = a2b_loop 0 0 0 (out @ [(l * 64 + v) mod 256]) cs"
      using d by (simp add: 4 del: a2b_loop.simps)
    then show ?thesis unfolding m by blast
  qed
qed

lemma a2b_fails_iff:
  assumes "\<forall>c\<in>set s. b64_kept c" and "q < 4"
  shows "(\<exists>e. a2b_loop q l p out s = Inl e) \<longleftrightarrow>
           \<not> pad_completes q p s \<and> (q + data_count s) mod 4 \<noteq> 0"
  using assms
proof (induction s arbitrary: q l p out)
  case Nil
  then show ?case by (auto simp: pad_completes_Nil data_count_simps)
next
  case (Cons c cs)
  then have kept: "\<forall>c\<in>set cs. b64_kept c" and c: "b64_kept c" by simp_all
  show ?case
  proof (cases "c = 61")
    case True
    show ?thesis
    proof (cases "2 \<le> q \<and> 4 \<le> q + (p + 1)")
      case stop: True
      with Cons.prems(2) have "q = 3 \<or> (q = 2 \<and> 1 \<le> p)" by linarith
      then have "pad_completes q p (61 # cs)"
        using pad_completes_pad [OF Cons.prems(2)] by blast
      with stop show ?thesis unfolding True a2b_pad_step by simp
    next
      case go: False
      define p' where "p' = (if 2 \<le> q then p + 1 else p)"
      from go Cons.prems(2) have "\<not> (q = 3 \<or> (q = 2 \<and> 1 \<le> p))" by linarith
      then have pc: "pad_completes q p (61 # cs) \<longleftrightarrow> pad_completes q p' cs"
        unfolding p'_def using pad_completes_pad [OF Cons.prems(2)] by blast
      have step: "a2b_loop q l p out (61 # cs) = a2b_loop q l p' out cs"
        unfolding a2b_pad_step p'_def using go by (auto simp del: a2b_loop.simps)
      show ?thesis
        unfolding True step pc data_count_simps(2)
        by (rule Cons.IH [OF kept Cons.prems(2)])
    qed
  next
    case False
    with c obtain v where v: "b64_val c = Some v" by (auto simp: b64_kept_def)
    from a2b_data_quad [OF v Cons.prems(2)] obtain l' out' where
      step: "a2b_loop q l p out (c # cs) = a2b_loop (Suc q mod 4) l' 0 out' cs"
      by blast
    have q': "Suc q mod 4 < 4" by simp
    from v have nn: "b64_val c \<noteq> None" by simp
    show ?thesis
      unfolding step pad_completes_data [OF nn] data_count_simps(3) [OF nn] suc_quad
      by (rule Cons.IH [OF kept q'])
  qed
qed

subsection \<open>base64\_converter: the report of the decode operation\<close>

lemma data_count_filter: "data_count (filter b64_kept t) = data_count t"
proof -
  have "(\<lambda>c. b64_kept c \<and> b64_val c \<noteq> None) = (\<lambda>c. b64_val c \<noteq> None)"
    by (auto simp: b64_kept_def)
  then show ?thesis by (simp add: data_count_def)
qed

lemma a2b_rejects_iff:
  "(\<exists>e. a2b_base64 (filter b64_kept t) = Inl e) \<longleftrightarrow>
     \<not> pad_completes 0 0 (filter b64_kept t) \<and> data_count t mod 4 \<noteq> 0"
proof -
  have "\<forall>c\<in>set (filter b64_kept t). b64_kept c" by simp
  from a2b_fails_iff [OF this, of 0 0 0 "[]"] show ?thesis
    by (simp add: a2b_base64_def data_count_filter)
qed

lemma no_pad_no_complete: "61 \<notin> set s \<Longrightarrow> \<not> pad_completes q p s"
  by (auto simp: pad_completes_def)

lemma encoded_bytes:
  assumes "str_encode_utf8 d = Inr bs"
  shows "\<forall>b\<in>set bs. b < 256"
proof -
  from assms have "\<forall>c\<in>set d. is_scalar c"
    unfolding str_encode_utf8_def by (rule encode_scalar)
  from utf8_round_trip_from [OF this, of d 0] assms show ?thesis
    unfolding str_encode_utf8_def by auto
qed

lemma base64_decoded_cases:
  "base64_decoded (VStr t) =
     (if list_all (\<lambda>c. c < 128) t then
        (case a2b_base64 (filter b64_kept t) of
           Inl e \<Rightarrow> Inl e
         | Inr bs \<Rightarrow> bytes_decode_utf8 bs)
      else Inl ValueError_non_ascii)"
  using b64decode_discards [of t] by (simp add: base64_decoded_def)

lemma base64_decoded_fails_iff:
  "(\<exists>e. base64_decoded (VStr t) = Inl e) \<longleftrightarrow>
     (\<exists>c\<in>set t. 128 \<le> c)
   \<or> (\<not> pad_completes 0 0 (filter b64_kept t) \<and> data_count t mod 4 \<noteq> 0)
   \<or> (\<exists>bs. a2b_base64 (filter b64_kept t) = Inr bs \<and> (\<forall>d. str_encode_utf8 d \<noteq> Inr bs))"
proof (cases "list_all (\<lambda>c. c < 128) t")
  case False
  then have "\<exists>c\<in>set t. 128 \<le> c" by (auto simp: list_all_iff not_less)
  with False show ?thesis by (simp add: base64_decoded_cases)
next
  case True
  then have ascii: "\<not> (\<exists>c\<in>set t. 128 \<le> c)" by (auto simp: list_all_iff)
  show ?thesis
  proof (cases "a2b_base64 (filter b64_kept t)")
    case (Inl e)
    then have "\<exists>e. a2b_base64 (filter b64_kept t) = Inl e" by blast
    then have "\<not> pad_completes 0 0 (filter b64_kept t) \<and> data_count t mod 4 \<noteq> 0"
      unfolding a2b_rejects_iff .
    with True Inl show ?thesis by (simp add: base64_decoded_cases)
  next
    case (Inr bs)
    then have "\<not> (\<exists>e. a2b_base64 (filter b64_kept t) = Inl e)" by simp
    then have acc: "\<not> (\<not> pad_completes 0 0 (filter b64_kept t) \<and> data_count t mod 4 \<noteq> 0)"
      unfolding a2b_rejects_iff .
    have d: "base64_decoded (VStr t) = bytes_decode_utf8 bs"
      using True Inr by (simp add: base64_decoded_cases)
    have "(\<exists>e. bytes_decode_utf8 bs = Inl e) \<longleftrightarrow> (\<forall>d. str_encode_utf8 d \<noteq> Inr bs)"
      unfolding utf8_decodes_iff [symmetric] by (cases "bytes_decode_utf8 bs") auto
    with ascii acc Inr show ?thesis unfolding d by auto
  qed
qed

lemma base64_decoded_text:
  assumes "\<forall>c\<in>set t. c < 128"
    and "a2b_base64 (filter b64_kept t) = Inr bs \<or> filter b64_kept t = b64encode bs"
    and "str_encode_utf8 d = Inr bs"
  shows "base64_decoded (VStr t) = Inr d"
proof -
  have "a2b_base64 (filter b64_kept t) = Inr bs"
    using assms(2) a2b_b64encode [OF encoded_bytes [OF assms(3)], of "[]"]
    by (auto simp: a2b_base64_def)
  moreover from assms(3) have "bytes_decode_utf8 bs = Inr d" by (simp add: utf8_decodes_iff)
  ultimately show ?thesis
    using assms(1) by (simp add: base64_decoded_cases list_all_iff)
qed

text \<open>
  C6, as stated: a character outside the Base64 alphabet would give an error report. The
  input below has "!" and a space, which are outside the alphabet, and decodes to "hi".
\<close>

theorem base64_decode_counterexample:
  "b64_val 33 = None \<and> b64_val 32 = None
   \<and> call_tool demo_env (lit ''base64_converter'')
        [lit ''text'' \<mapsto> VStr [33, 97, 71, 32, 107, 61],
         lit ''operation'' \<mapsto> VStr (lit ''decode'')]
      = Inr (decode_output [33, 97, 71, 32, 107, 61] (lit ''hi''))
   \<and> \<not> is_error_report (decode_output [33, 97, 71, 32, 107, 61] (lit ''hi''))"
proof -
  have "base64_decoded (VStr [33, 97, 71, 32, 107, 61]) = Inr (lit ''hi'')"
    by (simp add: base64_decoded_def b64decode_def a2b_base64_def b64_val_def is_ascii_upper_def
        is_ascii_lower_def is_ascii_digit_def bytes_decode_utf8_def lit_def)
  then show ?thesis
    using decode_call [of demo_env "[33, 97, 71, 32, 107, 61]"]
    by (simp add: decode_output_no_error b64_val_def is_ascii_upper_def
        is_ascii_lower_def is_ascii_digit_def)
qed

text \<open>
  C6, amended. \<open>base64.b64decode\<close> is called without \<open>validate\<close>, so the decode operation
  first discards every ASCII character that is neither in the alphabet nor \<open>=\<close>, and stops
  at the first pad that completes a group of four: a pad after three alphabet characters
  of the group, or the second of two adjacent pads after two (\<open>pad_completes\<close>). For every
  string t the call returns a string, and that string is an error report exactly when

    \<^item> t has a character beyond ASCII, or
    \<^item> no pad completes a group and the number of alphabet characters of t is not a
      multiple of four (\<open>binascii\<close> raises "Incorrect padding" or "Invalid base64-encoded
      string"), or
    \<^item> the decoded bytes are not the UTF-8 encoding of any string.

  Otherwise the result is the success report with the decoded text d: the string whose
  UTF-8 encoding is the decoded bytes; in particular, when the characters kept are the
  standard Base64 encoding of the UTF-8 encoding of d, the report contains d.
\<close>

theorem base64_decode_report:
  "\<exists>r. call_tool env (lit ''base64_converter'')
          [lit ''text'' \<mapsto> VStr t, lit ''operation'' \<mapsto> VStr (lit ''decode'')] = Inr r
     \<and> (is_error_report r \<longleftrightarrow>
          (\<exists>c\<in>set t. 128 \<le> c)
        \<or> (\<not> pad_completes 0 0 (filter b64_kept t) \<and> data_count t mod 4 \<noteq> 0)
        \<or> (\<exists>bs. a2b_base64 (filter b64_kept t) = Inr bs
                 \<and> (\<forall>d. str_encode_utf8 d \<noteq> Inr bs)))
     \<and> (\<forall>bs d. (\<forall>c\<in>set t. c < 128) \<longrightarrow>
           (a2b_base64 (filter b64_kept t) = Inr bs \<or> filter b64_kept t = b64encode bs) \<longrightarrow>
           str_encode_utf8 d = Inr bs \<longrightarrow>
           r = decode_output t d \<and> \<not> is_error_report r)"
proof (cases "base64_decoded (VStr t)")
  case (Inl e)
  define r where "r = cross_mark @ lit '' Error with Base64 operation: '' @ exc_text env e"
  have call: "call_tool env (lit ''base64_converter'')
          [lit ''text'' \<mapsto> VStr t, lit ''operation'' \<mapsto> VStr (lit ''decode'')] = Inr r"
    using decode_call [of env t] Inl by (simp add: r_def)
  have err: "is_error_report r" unfolding r_def by (rule error_report_prefix)
  from Inl have "\<exists>e. base64_decoded (VStr t) = Inl e" by blast
  then have rhs: "(\<exists>c\<in>set t. 128 \<le> c)
        \<or> (\<not> pad_completes 0 0 (filter b64_kept t) \<and> data_count t mod 4 \<noteq> 0)
        \<or> (\<exists>bs. a2b_base64 (filter b64_kept t) = Inr bs
                 \<and> (\<forall>d. str_encode_utf8 d \<noteq> Inr bs))"
    unfolding base64_decoded_fails_iff .
  have none: "\<forall>bs d. (\<forall>c\<in>set t. c < 128) \<longrightarrow>
           (a2b_base64 (filter b64_kept t) = Inr bs \<or> filter b64_kept t = b64encode bs) \<longrightarrow>
           str_encode_utf8 d = Inr bs \<longrightarrow>
           r = decode_output t d \<and> \<not> is_error_report r"
    using base64_decoded_text [of t] Inl by fastforce
  from call err rhs none show ?thesis by blast
next
  case (Inr d0)
  define r where "r = decode_output t d0"
  have call: "call_tool env (lit ''base64_converter'')
          [lit ''text'' \<mapsto> VStr t, lit ''operation'' \<mapsto> VStr (lit ''decode'')] = Inr r"
    using decode_call [of env t] Inr by (simp add: r_def)
  have ok: "\<not> is_error_report r" unfolding r_def by (rule decode_output_no_error)
  from Inr have "\<not> (\<exists>e. base64_decoded (VStr t) = Inl e)" by simp
  then have rhs: "\<not> ((\<exists>c\<in>set t. 128 \<le> c)
        \<or> (\<not> pad_completes 0 0 (filter b64_kept t) \<and> data_count t mod 4 \<noteq> 0)
        \<or> (\<exists>bs. a2b_base64 (filter b64_kept t) = Inr bs
                 \<and> (\<forall>d. str_encode_utf8 d \<noteq> Inr bs)))"
    unfolding base64_decoded_fails_iff .
  have same: "\<forall>bs d. (\<forall>c\<in>set t. c < 128) \<longrightarrow>
           (a2b_base64 (filter b64_kept t) = Inr bs \<or> filter b64_kept t = b64encode bs) \<longrightarrow>
           str_encode_utf8 d = Inr bs \<longrightarrow>
           r = decode_output t d \<and> \<not> is_error_report r"
    using base64_decoded_text [of t] Inr ok unfolding r_def by fastforce
  from call ok rhs same show ?thesis by blast
qed

lemma short_kept: "filter b64_kept (lit ''aGk'') = lit ''aGk''"
  by (simp add: b64_kept_def b64_val_def is_ascii_upper_def is_ascii_lower_def
      is_ascii_digit_def lit_def)

lemma short_count: "data_count (lit ''aGk'') = 3"
  by (simp add: data_count_def b64_val_def is_ascii_upper_def is_ascii_lower_def
      is_ascii_digit_def lit_def)

lemma bad_utf8_bytes: "a2b_base64 (filter b64_kept (lit ''/w=='')) = Inr [255]"
  by (simp add: a2b_base64_def b64_kept_def b64_val_def is_ascii_upper_def is_ascii_lower_def
      is_ascii_digit_def lit_def)

lemma bad_utf8_none: "str_encode_utf8 d \<noteq> Inr [255]"
proof -
  have "bytes_decode_utf8 [255] \<noteq> Inr d" by (simp add: bytes_decode_utf8_def)
  then show ?thesis unfolding utf8_decodes_iff .
qed

lemma trailing_bytes: "a2b_base64 (filter b64_kept (lit ''aGk=aG'')) = Inr [104, 105]"
  by (simp add: a2b_base64_def b64_kept_def b64_val_def is_ascii_upper_def is_ascii_lower_def
      is_ascii_digit_def lit_def)

lemma hi_encoded: "str_encode_utf8 (lit ''hi'') = Inr [104, 105]"
  by (simp add: str_encode_utf8_def utf8_encode_char_def lit_def)

text \<open>
  Three inputs: one that ends inside a group with no pad, one that decodes to the byte
  0xFF, and one whose pad completes the first group, after which the rest is ignored.
\<close>

theorem base64_decode_report_witness:
  "(\<exists>r. call_tool demo_env (lit ''base64_converter'')
          [lit ''text'' \<mapsto> VStr (lit ''aGk''), lit ''operation'' \<mapsto> VStr (lit ''decode'')]
        = Inr r \<and> is_error_report r)
   \<and> \<not> pad_completes 0 0 (filter b64_kept (lit ''aGk'')) \<and> data_count (lit ''aGk'') = 3
   \<and> (\<exists>r. call_tool demo_env (lit ''base64_converter'')
          [lit ''text'' \<mapsto> VStr (lit ''/w==''), lit ''operation'' \<mapsto> VStr (lit ''decode'')]
        = Inr r \<and> is_error_report r)
   \<and> a2b_base64 (filter b64_kept (lit ''/w=='')) = Inr [255]
   \<and> call_tool demo_env (lit ''base64_converter'')
        [lit ''text'' \<mapsto> VStr (lit ''aGk=aG''), lit ''operation'' \<mapsto> VStr (lit ''decode'')]
      = Inr (decode_output (lit ''aGk=aG'') (lit ''hi''))
   \<and> str_encode_utf8 (lit ''hi'') = Inr [104, 105]
   \<and> a2b_base64 (filter b64_kept (lit ''aGk=aG'')) = Inr [104, 105]"
proof -
  have np: "\<not> pad_completes 0 0 (filter b64_kept (lit ''aGk''))"
    unfolding short_kept by (rule no_pad_no_complete) (simp add: lit_def)
  have a: "\<exists>r. call_tool demo_env (lit ''base64_converter'')
          [lit ''text'' \<mapsto> VStr (lit ''aGk''), lit ''operation'' \<mapsto> VStr (lit ''decode'')]
        = Inr r \<and> is_error_report r"
    using base64_decode_report [of demo_env "lit ''aGk''"] np short_count by auto
  have b: "\<exists>r. call_tool demo_env (lit ''base64_converter'')
          [lit ''text'' \<mapsto> VStr (lit ''/w==''), lit ''operation'' \<mapsto> VStr (lit ''decode'')]
        = Inr r \<and> is_error_report r"
    using base64_decode_report [of demo_env "lit ''/w==''"] bad_utf8_bytes bad_utf8_none by auto
  have ascii: "\<forall>c\<in>set (lit ''aGk=aG''). c < 128" by (simp add: lit_def)
  have c: "call_tool demo_env (lit ''base64_converter'')
        [lit ''text'' \<mapsto> VStr (lit ''aGk=aG''), lit ''operation'' \<mapsto> VStr (lit ''decode'')]
      = Inr (decode_output (lit ''aGk=aG'') (lit ''hi''))"
    using base64_decode_report [of demo_env "lit ''aGk=aG''"] ascii trailing_bytes hi_encoded
    by blast
  from a np short_count b bad_utf8_bytes c hi_encoded trailing_bytes show ?thesis by blast
qed

end
